theory Spec2Isabelle
  imports Complex_Main
begin

section \<open>Type system (types.py)\<close>

datatype BaseType =
    BOOLEAN | INTEGER | INTEGER_TUPLE | GRID | CELL | OBJECT | OBJECTS | INDICES
  | INDICES_SET | INTEGER_SET | TUPLE | TUPLE_TUPLE | CONTAINER | CONTAINER_CONTAINER
  | FROZENSET | ANY

text \<open>A Type is either a BaseType or a CallableType (input types, output type).\<close>

datatype Type =
    Base BaseType
  | CallableType (input_types: "Type list") (output_type: Type)

fun is_callable :: "Type \<Rightarrow> bool" where
  "is_callable (CallableType ins out) = True"
| "is_callable (Base b) = False"

definition PATCH :: "Type set" where
  "PATCH = {Base OBJECT, Base INDICES}"

definition ELEMENT :: "Type set" where
  "ELEMENT = {Base OBJECT, Base GRID}"

definition PIECE :: "Type set" where
  "PIECE = {Base GRID, Base OBJECT, Base INDICES}"

definition CONTAINER_TYPES :: "Type set" where
  "CONTAINER_TYPES = {Base OBJECTS, Base INDICES, Base INTEGER_SET, Base TUPLE, Base GRID,
     Base OBJECT, Base CONTAINER}"

definition FROZENSET_TYPES :: "Type set" where
  "FROZENSET_TYPES = {Base OBJECT, Base OBJECTS, Base INDICES, Base INDICES_SET,
     Base INTEGER_SET, Base FROZENSET}"

text \<open>The rules are tried in the order of the source; the first one that returns decides.\<close>

definition is_type_compatible :: "Type \<Rightarrow> Type \<Rightarrow> bool" where
  "is_type_compatible arg_type param_type =
    (if param_type = Base ANY then True
     else if arg_type = Base ANY then True
     else if arg_type = param_type then True
     else if param_type = Base INTEGER_TUPLE \<and> arg_type = Base INTEGER then False
     else if param_type = Base CONTAINER
       then arg_type \<in> CONTAINER_TYPES \<or> arg_type = Base CONTAINER
     else if param_type = Base CONTAINER_CONTAINER
       then arg_type \<in> {Base OBJECTS, Base INDICES_SET, Base TUPLE_TUPLE,
              Base CONTAINER_CONTAINER}
     else if param_type = Base FROZENSET then arg_type \<in> FROZENSET_TYPES
     else if param_type \<in> PATCH \<and> arg_type \<in> PATCH then True
     else if param_type \<in> ELEMENT \<and> arg_type \<in> ELEMENT then True
     else if param_type \<in> PIECE \<and> arg_type \<in> PIECE then True
     else if param_type = Base TUPLE
       then arg_type \<in> {Base TUPLE, Base GRID, Base INTEGER_TUPLE, Base TUPLE_TUPLE}
     else if is_callable param_type \<and> is_callable arg_type
       then length (input_types param_type) = length (input_types arg_type)
     else if is_callable param_type then is_callable arg_type
     else False)"


section \<open>Primitive metadata (primitives.py)\<close>

record PrimitiveInfo =
  name :: string
  param_names :: "string list"
  param_types :: "Type list"
  return_type :: Type
  is_higher_order :: bool
  returns_callable :: bool

text \<open>
  The catalog is a Python dict, iterated in insertion order: an association list,
  looked up with \<open>map_of\<close>.
\<close>

type_synonym catalog = "(string \<times> PrimitiveInfo) list"

definition HIGHER_ORDER_RETURNING_CALLABLE :: "(string \<times> Type) list" where
  "HIGHER_ORDER_RETURNING_CALLABLE =
    [(''compose'', CallableType [Base ANY] (Base ANY)),
     (''chain'', CallableType [Base ANY] (Base ANY)),
     (''fork'', CallableType [Base ANY] (Base ANY)),
     (''lbind'', CallableType [Base ANY] (Base ANY)),
     (''rbind'', CallableType [Base ANY] (Base ANY)),
     (''matcher'', CallableType [Base ANY] (Base BOOLEAN)),
     (''power'', CallableType [Base ANY] (Base ANY))]"

definition FUNCTION_TAKING_PRIMITIVES :: "string set" where
  "FUNCTION_TAKING_PRIMITIVES =
    {''compose'', ''chain'', ''fork'', ''lbind'', ''rbind'', ''matcher'', ''power'',
     ''apply'', ''mapply'', ''sfilter'', ''mfilter'', ''argmax'', ''argmin'',
     ''order'', ''extract'', ''valmax'', ''valmin'', ''rapply'', ''papply'', ''mpapply'',
     ''prapply''}"

section \<open>Hypotheses and type environments (hypothesis.py)\<close>

text \<open>
  An Argument is a kind tag and a name; the tag is one of the four the source lists
  (constant, variable, input, primitive), and a Step is a PrimitiveCall or a
  CallVariable. The branches of format_arg, resolve_arg and execute_hypothesis that
  raise ValueError on any other tag or step type therefore have no input here.
\<close>

datatype ArgKind = kind_constant | kind_variable | kind_input | kind_primitive

datatype Argument = Argument (kind: ArgKind) (value': string)

datatype Step =
    PrimitiveCall (primitive: string) (arguments: "Argument list") (output_var: string)
  | CallVariable (callee: string) (arguments: "Argument list") (output_var: string)

datatype Hypothesis = Hypothesis (steps: "Step list")

text \<open>
  TypeEnv.variables is a dict from variable names to types, seeded with I: Grid. Adding
  a name that is already bound replaces its type in place; a new name goes last.
\<close>

type_synonym TypeEnv = "(string \<times> Type) list"

definition TypeEnv_init :: TypeEnv where
  "TypeEnv_init = [(''I'', Base GRID)]"

fun TypeEnv_add :: "TypeEnv \<Rightarrow> string \<Rightarrow> Type \<Rightarrow> TypeEnv" where
  "TypeEnv_add [] nm typ = [(nm, typ)]"
| "TypeEnv_add ((k, t) # rest) nm typ =
     (if k = nm then (k, typ) # rest else (k, t) # TypeEnv_add rest nm typ)"

definition get_callable_vars :: "TypeEnv \<Rightarrow> string list" where
  "get_callable_vars env = map fst (filter (\<lambda>(nm, typ). is_callable typ) env)"

definition build_type_env :: "Hypothesis \<Rightarrow> catalog \<Rightarrow> TypeEnv" where
  "build_type_env hypothesis primitives =
     foldl (\<lambda>env step.
        (case step of
           PrimitiveCall p args out \<Rightarrow>
             TypeEnv_add env out
               (case map_of primitives p of
                  Some prim_info \<Rightarrow>
                    (case map_of HIGHER_ORDER_RETURNING_CALLABLE p of
                       Some t \<Rightarrow> t
                     | None \<Rightarrow> return_type prim_info)
                | None \<Rightarrow> Base ANY)
         | CallVariable c args out \<Rightarrow>
             TypeEnv_add env out
               (case map_of env c of
                  Some (CallableType ins ret) \<Rightarrow> ret
                | Some (Base b) \<Rightarrow> Base ANY
                | None \<Rightarrow> Base ANY)))
       TypeEnv_init (steps hypothesis)"

text \<open>Decimal digits of a natural number, as Python's f-string prints an int.\<close>

definition digit_char :: "nat \<Rightarrow> char" where
  "digit_char d = ''0123456789'' ! d"

fun str_nat :: "nat \<Rightarrow> string" where
  "str_nat n = (if n < 10 then [digit_char n] else str_nat (n div 10) @ [digit_char (n mod 10)])"

declare str_nat.simps [simp del]

definition next_var_name :: "Hypothesis \<Rightarrow> string" where
  "next_var_name hypothesis = ''x'' @ str_nat (length (steps hypothesis) + 1)"

section \<open>Hypothesis enumeration (generator.py)\<close>

definition CONSTANTS :: "(string \<times> Type) list" where
  "CONSTANTS =
    [(''T'', Base BOOLEAN), (''F'', Base BOOLEAN),
     (''ZERO'', Base INTEGER), (''ONE'', Base INTEGER), (''TWO'', Base INTEGER),
     (''THREE'', Base INTEGER), (''FOUR'', Base INTEGER), (''FIVE'', Base INTEGER),
     (''SIX'', Base INTEGER), (''SEVEN'', Base INTEGER), (''EIGHT'', Base INTEGER),
     (''NINE'', Base INTEGER), (''TEN'', Base INTEGER), (''NEG_ONE'', Base INTEGER),
     (''NEG_TWO'', Base INTEGER),
     (''DOWN'', Base INTEGER_TUPLE), (''RIGHT'', Base INTEGER_TUPLE),
     (''UP'', Base INTEGER_TUPLE), (''LEFT'', Base INTEGER_TUPLE),
     (''ORIGIN'', Base INTEGER_TUPLE), (''UNITY'', Base INTEGER_TUPLE),
     (''NEG_UNITY'', Base INTEGER_TUPLE), (''UP_RIGHT'', Base INTEGER_TUPLE),
     (''DOWN_LEFT'', Base INTEGER_TUPLE), (''ZERO_BY_TWO'', Base INTEGER_TUPLE),
     (''TWO_BY_ZERO'', Base INTEGER_TUPLE), (''TWO_BY_TWO'', Base INTEGER_TUPLE),
     (''THREE_BY_THREE'', Base INTEGER_TUPLE)]"

definition get_possible_arguments ::
  "Type \<Rightarrow> TypeEnv \<Rightarrow> catalog \<Rightarrow> bool \<Rightarrow> Argument list" where
  "get_possible_arguments param_type env primitives include_primitives =
     (if is_type_compatible (Base GRID) param_type then [Argument kind_input ''I''] else [])
     @ map (\<lambda>(const_name, const_type). Argument kind_constant const_name)
         (filter (\<lambda>(const_name, const_type). is_type_compatible const_type param_type)
            CONSTANTS)
     @ map (\<lambda>(var_name, var_type). Argument kind_variable var_name)
         (filter (\<lambda>(var_name, var_type).
              var_name \<noteq> ''I'' \<and> is_type_compatible var_type param_type) env)
     @ (if include_primitives \<or> is_callable param_type
        then map (\<lambda>(prim_name, prim_info). Argument kind_primitive prim_name)
               (filter (\<lambda>(prim_name, prim_info).
                    is_type_compatible
                      (CallableType (param_types prim_info) (return_type prim_info))
                      param_type) primitives)
        else [])"

text \<open>
  The loop of enumerate_bindings that collects one option list per parameter; None is
  its early return at a parameter with no option.
\<close>

fun param_options ::
  "string \<Rightarrow> TypeEnv \<Rightarrow> catalog \<Rightarrow> Type list \<Rightarrow> Argument list list option" where
  "param_options prim_name env primitives [] = Some []"
| "param_options prim_name env primitives (param_type # rest) =
     (let include_prims = (prim_name \<in> FUNCTION_TAKING_PRIMITIVES \<and> is_callable param_type);
          options = get_possible_arguments param_type env primitives include_prims
      in if options = [] then None
         else (case param_options prim_name env primitives rest of
                 None \<Rightarrow> None
               | Some others \<Rightarrow> Some (options # others)))"

text \<open>itertools.product: the rightmost position advances fastest, as product_lists.\<close>

definition enumerate_bindings ::
  "PrimitiveInfo \<Rightarrow> TypeEnv \<Rightarrow> catalog \<Rightarrow> Argument list list" where
  "enumerate_bindings prim_info env primitives =
     (if length (param_types prim_info) = 0 then [[]]
      else (case param_options (name prim_info) env primitives (param_types prim_info) of
              None \<Rightarrow> []
            | Some opts \<Rightarrow> product_lists opts))"

fun call_param_options ::
  "TypeEnv \<Rightarrow> catalog \<Rightarrow> Type list \<Rightarrow> Argument list list option" where
  "call_param_options env primitives [] = Some []"
| "call_param_options env primitives (param_type # rest) =
     (let options = get_possible_arguments param_type env primitives False
      in if options = [] then None
         else (case call_param_options env primitives rest of
                 None \<Rightarrow> None
               | Some others \<Rightarrow> Some (options # others)))"

text \<open>
  enumerate_call_bindings takes a CallableType; its one caller checks isinstance before
  the call. The model takes the two fields of that CallableType.
\<close>

definition enumerate_call_bindings ::
  "Type list \<Rightarrow> Type \<Rightarrow> TypeEnv \<Rightarrow> catalog \<Rightarrow> Argument list list" where
  "enumerate_call_bindings callable_inputs callable_output env primitives =
     (if length callable_inputs = 0 then [[]]
      else (case call_param_options env primitives callable_inputs of
              None \<Rightarrow> []
            | Some opts \<Rightarrow> product_lists opts))"

definition generate_single_step :: "catalog \<Rightarrow> Hypothesis list" where
  "generate_single_step primitives =
     concat (map (\<lambda>(prim_name, prim_info).
        if \<not> is_type_compatible (return_type prim_info) (Base GRID) then []
        else map (\<lambda>binding. Hypothesis [PrimitiveCall prim_name binding ''O''])
               (enumerate_bindings prim_info TypeEnv_init primitives)) primitives)"

definition extend_hypothesis :: "Hypothesis \<Rightarrow> catalog \<Rightarrow> bool \<Rightarrow> Hypothesis list" where
  "extend_hypothesis partial primitives is_final =
     (let env = build_type_env partial primitives;
          new_var = (if is_final then ''O'' else next_var_name partial)
      in concat (map (\<lambda>(prim_name, prim_info).
            if is_final \<and> \<not> is_type_compatible (return_type prim_info) (Base GRID) then []
            else map (\<lambda>binding.
                   Hypothesis (steps partial @ [PrimitiveCall prim_name binding new_var]))
                   (enumerate_bindings prim_info env primitives)) primitives)
         @ concat (map (\<lambda>var_name.
            (case map_of env var_name of
               Some (CallableType ins ret) \<Rightarrow>
                 if is_final \<and> \<not> is_type_compatible ret (Base GRID) then []
                 else map (\<lambda>binding.
                        Hypothesis (steps partial @ [CallVariable var_name binding new_var]))
                        (enumerate_call_bindings ins ret env primitives)
             | Some (Base b) \<Rightarrow> []
             | None \<Rightarrow> [])) (get_callable_vars env)))"

text \<open>
  The depth of the source is an int that search and generate_hypotheses start at 1. At a
  depth below 1 generate_partials_at_depth calls itself with ever smaller depths until
  Python's recursion limit: RecursionError.
\<close>

datatype error =
    AttributeError string
  | KeyError string
  | IndexError
  | ValueError string
  | TypeError string
  | RecursionError
  | PrimitiveError string

fun generate_partials_at_depth :: "nat \<Rightarrow> catalog \<Rightarrow> error + Hypothesis list" where
  "generate_partials_at_depth 0 primitives = Inl RecursionError"
| "generate_partials_at_depth (Suc 0) primitives =
     Inr (concat (map (\<lambda>(prim_name, prim_info).
            map (\<lambda>binding. Hypothesis [PrimitiveCall prim_name binding ''x1''])
              (enumerate_bindings prim_info TypeEnv_init primitives)) primitives))"
| "generate_partials_at_depth (Suc (Suc n)) primitives =
     (case generate_partials_at_depth (Suc n) primitives of
        Inl e \<Rightarrow> Inl e
      | Inr partials \<Rightarrow>
          Inr (concat (map (\<lambda>partial. extend_hypothesis partial primitives False) partials)))"

definition generate_at_depth :: "nat \<Rightarrow> catalog \<Rightarrow> error + Hypothesis list" where
  "generate_at_depth depth primitives =
     (if depth = 1 then Inr (generate_single_step primitives)
      else if depth = 2 then
        Inr (concat (map (\<lambda>(prim_name, prim_info).
               concat (map (\<lambda>binding.
                  extend_hypothesis (Hypothesis [PrimitiveCall prim_name binding ''x1''])
                    primitives True)
                 (enumerate_bindings prim_info TypeEnv_init primitives))) primitives))
      else (case generate_partials_at_depth (depth - 1) primitives of
              Inl e \<Rightarrow> Inl e
            | Inr partials \<Rightarrow>
                Inr (concat (map (\<lambda>partial. extend_hypothesis partial primitives True)
                       partials))))"

fun generate_depths :: "nat list \<Rightarrow> catalog \<Rightarrow> error + Hypothesis list" where
  "generate_depths [] primitives = Inr []"
| "generate_depths (depth # rest) primitives =
     (case generate_at_depth depth primitives of
        Inl e \<Rightarrow> Inl e
      | Inr hs \<Rightarrow>
          (case generate_depths rest primitives of
             Inl e \<Rightarrow> Inl e
           | Inr others \<Rightarrow> Inr (hs @ others)))"

definition generate_hypotheses :: "nat \<Rightarrow> catalog \<Rightarrow> error + Hypothesis list" where
  "generate_hypotheses max_depth primitives = generate_depths [1 ..< max_depth + 1] primitives"


section \<open>Execution and scoring (evaluator.py)\<close>

text \<open>
  The DSL module and the constants module belong to the caller. Of the DSL module the
  model keeps what the code reads: the signatures that extract_primitives finds by
  reflection (in the order of inspect.getmembers), the attributes that getattr finds,
  and what a positional call of a value returns or raises. A runtime value is any type
  \<open>'v\<close>; Python's == on grids is equality of \<open>'v\<close>. Every failure is an
  exception of class Exception, the error type above.
\<close>

record 'v dsl_module =
  signatures :: catalog
  members :: "string \<Rightarrow> 'v option"
  call :: "'v \<Rightarrow> 'v list \<Rightarrow> error + 'v"

type_synonym 'v constants_module = "string \<Rightarrow> 'v option"

definition extract_primitives :: "'v dsl_module \<Rightarrow> catalog" where
  "extract_primitives dsl = signatures dsl"

definition resolve_arg ::
  "Argument \<Rightarrow> (string \<Rightarrow> 'v option) \<Rightarrow> 'v dsl_module \<Rightarrow> 'v constants_module \<Rightarrow> error + 'v" where
  "resolve_arg arg env dsl constants =
     (case kind arg of
        kind_constant \<Rightarrow>
          (case constants (value' arg) of None \<Rightarrow> Inl (AttributeError (value' arg)) | Some v \<Rightarrow> Inr v)
      | kind_variable \<Rightarrow>
          (case env (value' arg) of None \<Rightarrow> Inl (KeyError (value' arg)) | Some v \<Rightarrow> Inr v)
      | kind_input \<Rightarrow>
          (case env ''I'' of None \<Rightarrow> Inl (KeyError ''I'') | Some v \<Rightarrow> Inr v)
      | kind_primitive \<Rightarrow>
          (case members dsl (value' arg) of
             None \<Rightarrow> Inl (AttributeError (value' arg))
           | Some v \<Rightarrow> Inr v))"

text \<open>The list comprehension over the arguments: left to right, the first failure ends it.\<close>

fun resolve_args ::
  "Argument list \<Rightarrow> (string \<Rightarrow> 'v option) \<Rightarrow> 'v dsl_module \<Rightarrow> 'v constants_module
     \<Rightarrow> error + 'v list" where
  "resolve_args [] env dsl constants = Inr []"
| "resolve_args (arg # rest) env dsl constants =
     (case resolve_arg arg env dsl constants of
        Inl e \<Rightarrow> Inl e
      | Inr v \<Rightarrow>
          (case resolve_args rest env dsl constants of
             Inl e \<Rightarrow> Inl e
           | Inr vs \<Rightarrow> Inr (v # vs)))"

fun execute_steps ::
  "Step list \<Rightarrow> (string \<Rightarrow> 'v option) \<Rightarrow> 'v dsl_module \<Rightarrow> 'v constants_module
     \<Rightarrow> error + (string \<Rightarrow> 'v option)" where
  "execute_steps [] env dsl constants = Inr env"
| "execute_steps (PrimitiveCall p args out # rest) env dsl constants =
     (case members dsl p of
        None \<Rightarrow> Inl (AttributeError p)
      | Some func \<Rightarrow>
          (case resolve_args args env dsl constants of
             Inl e \<Rightarrow> Inl e
           | Inr vs \<Rightarrow>
               (case call dsl func vs of
                  Inl e \<Rightarrow> Inl e
                | Inr result \<Rightarrow> execute_steps rest (env(out \<mapsto> result)) dsl constants)))"
| "execute_steps (CallVariable c args out # rest) env dsl constants =
     (case env c of
        None \<Rightarrow> Inl (KeyError c)
      | Some func \<Rightarrow>
          (case resolve_args args env dsl constants of
             Inl e \<Rightarrow> Inl e
           | Inr vs \<Rightarrow>
               (case call dsl func vs of
                  Inl e \<Rightarrow> Inl e
                | Inr result \<Rightarrow> execute_steps rest (env(out \<mapsto> result)) dsl constants)))"

definition execute_hypothesis ::
  "Hypothesis \<Rightarrow> 'v \<Rightarrow> 'v dsl_module \<Rightarrow> 'v constants_module \<Rightarrow> error + 'v" where
  "execute_hypothesis hypothesis input_grid dsl constants =
     (case execute_steps (steps hypothesis) [''I'' \<mapsto> input_grid] dsl constants of
        Inl e \<Rightarrow> Inl e
      | Inr env \<Rightarrow> (case env ''O'' of None \<Rightarrow> Inl (KeyError ''O'') | Some v \<Rightarrow> Inr v))"

text \<open>The try/except around each example turns a raised exception into False.\<close>

fun evaluate_hypothesis ::
  "Hypothesis \<Rightarrow> ('v \<times> 'v) list \<Rightarrow> 'v dsl_module \<Rightarrow> 'v constants_module \<Rightarrow> bool" where
  "evaluate_hypothesis hypothesis [] dsl constants = True"
| "evaluate_hypothesis hypothesis ((input_grid, expected_output) # rest) dsl constants =
     (case execute_hypothesis hypothesis input_grid dsl constants of
        Inl e \<Rightarrow> False
      | Inr output \<Rightarrow>
          if output \<noteq> expected_output then False
          else evaluate_hypothesis hypothesis rest dsl constants)"

section \<open>Rendering (codegen.py)\<close>

definition format_arg :: "Argument \<Rightarrow> string" where
  "format_arg arg =
     (case kind arg of
        kind_constant \<Rightarrow> value' arg
      | kind_variable \<Rightarrow> value' arg
      | kind_input \<Rightarrow> ''I''
      | kind_primitive \<Rightarrow> value' arg)"

fun join :: "string \<Rightarrow> string list \<Rightarrow> string" where
  "join sep [] = []"
| "join sep [x] = x"
| "join sep (x # y # ys) = x @ sep @ join sep (y # ys)"

definition step_line :: "Step \<Rightarrow> string" where
  "step_line step =
     (case step of
        PrimitiveCall p args out \<Rightarrow>
          ''    '' @ out @ '' = '' @ p @ ''('' @ join '', '' (map format_arg args) @ '')''
      | CallVariable c args out \<Rightarrow>
          ''    '' @ out @ '' = '' @ c @ ''('' @ join '', '' (map format_arg args) @ '')'')"

definition hypothesis_to_code :: "Hypothesis \<Rightarrow> string \<Rightarrow> string" where
  "hypothesis_to_code hypothesis task_id =
     join [CHR 0x0A]
       ([''def solve_'' @ task_id @ ''(I):''] @ map step_line (steps hypothesis)
        @ [''    return O''])"

definition hypothesis_to_lambda :: "Hypothesis \<Rightarrow> error + string" where
  "hypothesis_to_lambda hypothesis =
     (if length (steps hypothesis) \<noteq> 1
      then Inl (ValueError ''Can only convert single-step hypotheses to lambda'')
      else (case steps hypothesis of
              [] \<Rightarrow> Inl IndexError
            | PrimitiveCall p args out # rest \<Rightarrow>
                Inr (''lambda I: '' @ p @ ''('' @ join '', '' (map format_arg args) @ '')'')
            | CallVariable c args out # rest \<Rightarrow>
                Inl (ValueError ''Cannot convert variable call to lambda'')))"

section \<open>The search loop (search.py)\<close>

record SearchResult =
  hypothesis :: Hypothesis
  code :: string
  depth :: nat
  hypotheses_tried :: nat
  time_elapsed :: real

text \<open>
  time.time() is a clock the search reads: reading number n returns \<open>clock n\<close>, and
  the state counts the readings made. The state also keeps total_tried and, for the
  claims about what is evaluated when, the sequence of timeout checks (with the elapsed
  time each one saw) and evaluations. Progress printing (verbose) is left out.
\<close>

datatype event = Checked real | Evaluated Hypothesis

record search_state =
  ticks :: nat
  total_tried :: nat
  trace :: "event list"

definition time_time :: "(nat \<Rightarrow> real) \<Rightarrow> 'a search_state_scheme \<Rightarrow> real \<times> 'a search_state_scheme" where
  "time_time clock st = (clock (ticks st), st\<lparr>ticks := Suc (ticks st)\<rparr>)"

text \<open>
  \<open>timeout and (time.time() - start_time) > timeout\<close>: a timeout of None or 0 is
  falsy, and then the clock is not read.
\<close>

definition timed_out ::
  "real option \<Rightarrow> (nat \<Rightarrow> real) \<Rightarrow> real \<Rightarrow> search_state \<Rightarrow> bool \<times> search_state" where
  "timed_out timeout clock start_time st =
     (case timeout of
        None \<Rightarrow> (False, st)
      | Some t \<Rightarrow>
          if t = 0 then (False, st)
          else (let (now, st1) = time_time clock st
                in (now - start_time > t,
                    st1\<lparr>trace := trace st1 @ [Checked (now - start_time)]\<rparr>)))"

text \<open>
  The for loop over one depth's hypotheses. \<open>Some r\<close> is a return of search with the
  value r (None for Python's None); \<open>None\<close> is the loop running to its end.
\<close>

fun try_hypotheses ::
  "('v \<times> 'v) list \<Rightarrow> string \<Rightarrow> 'v dsl_module \<Rightarrow> 'v constants_module \<Rightarrow> real option
     \<Rightarrow> (nat \<Rightarrow> real) \<Rightarrow> real \<Rightarrow> nat \<Rightarrow> Hypothesis list \<Rightarrow> search_state
     \<Rightarrow> SearchResult option option \<times> search_state" where
  "try_hypotheses task_examples task_id dsl constants timeout clock start_time d [] st = (None, st)"
| "try_hypotheses task_examples task_id dsl constants timeout clock start_time d (h # hs) st =
     (let (expired, st1) = timed_out timeout clock start_time st
      in if expired then (Some None, st1)
         else (let st2 = st1\<lparr>total_tried := total_tried st1 + 1,
                              trace := trace st1 @ [Evaluated h]\<rparr>
               in if evaluate_hypothesis h task_examples dsl constants
                  then (let (now, st3) = time_time clock st2
                        in (Some (Some \<lparr>hypothesis = h,
                                         code = hypothesis_to_code h task_id,
                                         depth = d,
                                         hypotheses_tried = total_tried st3,
                                         time_elapsed = now - start_time\<rparr>), st3))
                  else try_hypotheses task_examples task_id dsl constants timeout clock
                         start_time d hs st2))"

text \<open>
  The while loop over the depths. It may run forever (no max_depth and nothing passes),
  so it takes fuel, one unit per depth: a first component None is a run that is still
  going when the fuel ends, \<open>Some (Inr r)\<close> a return of r, \<open>Some (Inl e)\<close> a raise.
\<close>

fun search_depths ::
  "nat \<Rightarrow> ('v \<times> 'v) list \<Rightarrow> string \<Rightarrow> 'v dsl_module \<Rightarrow> 'v constants_module \<Rightarrow> catalog
     \<Rightarrow> int option \<Rightarrow> real option \<Rightarrow> (nat \<Rightarrow> real) \<Rightarrow> real \<Rightarrow> nat \<Rightarrow> search_state
     \<Rightarrow> (error + SearchResult option) option \<times> search_state" where
  "search_depths 0 task_examples task_id dsl constants primitives max_depth timeout clock
     start_time d st = (None, st)"
| "search_depths (Suc fuel) task_examples task_id dsl constants primitives max_depth timeout clock
     start_time d st =
     (if (case max_depth of None \<Rightarrow> True | Some m \<Rightarrow> int d \<le> m)
      then (case generate_at_depth d primitives of
              Inl e \<Rightarrow> (Some (Inl e), st)
            | Inr hs \<Rightarrow>
                (case try_hypotheses task_examples task_id dsl constants timeout clock
                        start_time d hs st of
                   (Some r, st1) \<Rightarrow> (Some (Inr r), st1)
                 | (None, st1) \<Rightarrow>
                     search_depths fuel task_examples task_id dsl constants primitives max_depth
                       timeout clock start_time (d + 1) st1))
      else (Some (Inr None), st))"

definition search ::
  "nat \<Rightarrow> ('v \<times> 'v) list \<Rightarrow> string \<Rightarrow> 'v dsl_module \<Rightarrow> 'v constants_module
     \<Rightarrow> int option \<Rightarrow> real option \<Rightarrow> (nat \<Rightarrow> real)
     \<Rightarrow> (error + SearchResult option) option \<times> search_state" where
  "search fuel task_examples task_id dsl constants max_depth timeout clock =
     (let primitives = extract_primitives dsl;
          (start_time, st) = time_time clock \<lparr>ticks = 0, total_tried = 0, trace = []\<rparr>
      in search_depths fuel task_examples task_id dsl constants primitives max_depth timeout
           clock start_time 1 st)"

text \<open>
  search_with_callback reads the clock once per hypothesis, uses that reading for the
  timeout check, the callback and the elapsed time, and calls the callback when more
  than half a second has passed since the last call. The calls are kept in the state.
\<close>

record callback_state =
  cb_ticks :: nat
  cb_total_tried :: nat
  last_callback :: real
  callbacks :: "(nat \<times> nat \<times> real) list"

fun try_hypotheses_cb ::
  "('v \<times> 'v) list \<Rightarrow> string \<Rightarrow> 'v dsl_module \<Rightarrow> 'v constants_module \<Rightarrow> real option
     \<Rightarrow> (nat \<Rightarrow> real) \<Rightarrow> real \<Rightarrow> nat \<Rightarrow> Hypothesis list \<Rightarrow> callback_state
     \<Rightarrow> SearchResult option option \<times> callback_state" where
  "try_hypotheses_cb task_examples task_id dsl constants timeout clock start_time d [] st =
     (None, st)"
| "try_hypotheses_cb task_examples task_id dsl constants timeout clock start_time d (h # hs) st =
     (let current_time = clock (cb_ticks st);
          st1 = st\<lparr>cb_ticks := Suc (cb_ticks st)\<rparr>
      in if (case timeout of None \<Rightarrow> False
             | Some t \<Rightarrow> t \<noteq> 0 \<and> current_time - start_time > t)
         then (Some None, st1)
         else (let st2 = (if current_time - last_callback st1 > 1 / 2
                          then st1\<lparr>last_callback := current_time,
                                   callbacks := callbacks st1
                                     @ [(d, cb_total_tried st1, current_time - start_time)]\<rparr>
                          else st1);
                   st3 = st2\<lparr>cb_total_tried := cb_total_tried st2 + 1\<rparr>
               in if evaluate_hypothesis h task_examples dsl constants
                  then (Some (Some \<lparr>hypothesis = h,
                                    code = hypothesis_to_code h task_id,
                                    depth = d,
                                    hypotheses_tried = cb_total_tried st3,
                                    time_elapsed = current_time - start_time\<rparr>), st3)
                  else try_hypotheses_cb task_examples task_id dsl constants timeout clock
                         start_time d hs st3))"

fun search_depths_cb ::
  "nat \<Rightarrow> ('v \<times> 'v) list \<Rightarrow> string \<Rightarrow> 'v dsl_module \<Rightarrow> 'v constants_module \<Rightarrow> catalog
     \<Rightarrow> int option \<Rightarrow> real option \<Rightarrow> (nat \<Rightarrow> real) \<Rightarrow> real \<Rightarrow> nat \<Rightarrow> callback_state
     \<Rightarrow> (error + SearchResult option) option \<times> callback_state" where
  "search_depths_cb 0 task_examples task_id dsl constants primitives max_depth timeout clock
     start_time d st = (None, st)"
| "search_depths_cb (Suc fuel) task_examples task_id dsl constants primitives max_depth timeout
     clock start_time d st =
     (if (case max_depth of None \<Rightarrow> True | Some m \<Rightarrow> int d \<le> m)
      then (case generate_at_depth d primitives of
              Inl e \<Rightarrow> (Some (Inl e), st)
            | Inr hs \<Rightarrow>
                (case try_hypotheses_cb task_examples task_id dsl constants timeout clock
                        start_time d hs st of
                   (Some r, st1) \<Rightarrow> (Some (Inr r), st1)
                 | (None, st1) \<Rightarrow>
                     search_depths_cb fuel task_examples task_id dsl constants primitives
                       max_depth timeout clock start_time (d + 1) st1))
      else (Some (Inr None), st))"

definition search_with_callback ::
  "nat \<Rightarrow> ('v \<times> 'v) list \<Rightarrow> string \<Rightarrow> 'v dsl_module \<Rightarrow> 'v constants_module
     \<Rightarrow> int option \<Rightarrow> real option \<Rightarrow> (nat \<Rightarrow> real)
     \<Rightarrow> (error + SearchResult option) option \<times> callback_state" where
  "search_with_callback fuel task_examples task_id dsl constants max_depth timeout clock =
     (let primitives = extract_primitives dsl;
          start_time = clock 0
      in search_depths_cb fuel task_examples task_id dsl constants primitives max_depth timeout
           clock start_time 1
           \<lparr>cb_ticks = 1, cb_total_tried = 0, last_callback = start_time, callbacks = []\<rparr>)"


section \<open>Notions used to state the properties\<close>

text \<open>
  The candidate lists of a primitive, one per parameter position, as the binding
  enumeration is described: each position's candidates are computed on their own.
\<close>

definition per_position_candidates ::
  "PrimitiveInfo \<Rightarrow> TypeEnv \<Rightarrow> catalog \<Rightarrow> Argument list list" where
  "per_position_candidates prim_info env primitives =
     map (\<lambda>param_type. get_possible_arguments param_type env primitives
            (name prim_info \<in> FUNCTION_TAKING_PRIMITIVES \<and> is_callable param_type))
       (param_types prim_info)"

text \<open>
  A trace in which every evaluation comes right after a timeout check that saw an
  elapsed time of at most t (\<open>checked_pairs\<close>), and one that may in addition end
  in a check that saw more than t, after which nothing happens (\<open>well_timed\<close>).
\<close>

fun checked_pairs :: "real \<Rightarrow> event list \<Rightarrow> bool" where
  "checked_pairs t [] = True"
| "checked_pairs t (Checked e # Evaluated h # evs) = (e \<le> t \<and> checked_pairs t evs)"
| "checked_pairs t evs = False"

fun well_timed :: "real \<Rightarrow> event list \<Rightarrow> bool" where
  "well_timed t [] = True"
| "well_timed t [Checked e] = (t < e)"
| "well_timed t (Checked e # Evaluated h # evs) = (e \<le> t \<and> well_timed t evs)"
| "well_timed t evs = False"

fun evaluated_of :: "event list \<Rightarrow> Hypothesis list" where
  "evaluated_of [] = []"
| "evaluated_of (Evaluated h # evs) = h # evaluated_of evs"
| "evaluated_of (Checked e # evs) = evaluated_of evs"

section \<open>A two-primitive library, after the repository's tests\<close>

datatype test_value = VGrid "int list list" | VFun string

definition mirror_info :: "string \<Rightarrow> PrimitiveInfo" where
  "mirror_info nm =
     \<lparr>name = nm, param_names = [''piece''], param_types = [Base GRID],
      return_type = Base GRID, is_higher_order = False, returns_callable = False\<rparr>"

definition test_catalog :: catalog where
  "test_catalog = [(''hmirror'', mirror_info ''hmirror''), (''vmirror'', mirror_info ''vmirror'')]"

definition test_call :: "test_value \<Rightarrow> test_value list \<Rightarrow> error + test_value" where
  "test_call func args =
     (case func of
        VFun nm \<Rightarrow>
          (case args of
             [VGrid g] \<Rightarrow>
               if nm = ''hmirror'' then Inr (VGrid (rev g))
               else if nm = ''vmirror'' then Inr (VGrid (map rev g))
               else Inl (PrimitiveError nm)
           | _ \<Rightarrow> Inl (TypeError nm))
      | VGrid g \<Rightarrow> Inl (TypeError ''not callable''))"

definition test_dsl :: "test_value dsl_module" where
  "test_dsl =
     \<lparr>signatures = test_catalog,
      members = map_of [(''hmirror'', VFun ''hmirror''), (''vmirror'', VFun ''vmirror'')],
      call = test_call\<rparr>"

definition test_constants :: "test_value constants_module" where
  "test_constants = (\<lambda>nm. None)"

definition test_examples :: "(test_value \<times> test_value) list" where
  "test_examples =
     [(VGrid [[1, 2, 3], [4, 5, 6]], VGrid [[3, 2, 1], [6, 5, 4]]),
      (VGrid [[7, 8], [9, 0]], VGrid [[8, 7], [0, 9]])]"

definition hmirror_I :: Hypothesis where
  "hmirror_I = Hypothesis [PrimitiveCall ''hmirror'' [Argument kind_input ''I''] ''O'']"

definition vmirror_I :: Hypothesis where
  "vmirror_I = Hypothesis [PrimitiveCall ''vmirror'' [Argument kind_input ''I''] ''O'']"


definition test_result :: SearchResult where
  "test_result = \<lparr>hypothesis = vmirror_I, code = hypothesis_to_code vmirror_I ''test_vmirror'',
     depth = 1, hypotheses_tried = 2, time_elapsed = 3\<rparr>"

definition two_mirrors :: "string \<Rightarrow> Argument \<Rightarrow> string \<Rightarrow> Argument \<Rightarrow> Hypothesis" where
  "two_mirrors p a q b = Hypothesis [PrimitiveCall p [a] ''x1'', PrimitiveCall q [b] ''O'']"

definition rot90_I :: Hypothesis where
  "rot90_I = Hypothesis [PrimitiveCall ''rot90'' [Argument kind_input ''I''] ''O'']"

section \<open>Properties of the type system\<close>

lemmas type_sets = PATCH_def ELEMENT_def PIECE_def CONTAINER_TYPES_def FROZENSET_TYPES_def

text \<open>
  C7: for every type t, base or function type, the wildcard is compatible with t as an
  argument and as a parameter: is_type_compatible(ANY, t) and is_type_compatible(t, ANY).
\<close>

theorem wildcard_compatible_both_sides:
  "is_type_compatible (Base ANY) t \<and> is_type_compatible t (Base ANY)"
  by (simp add: is_type_compatible_def)

theorem wildcard_compatible_both_sides_witness:
  "is_type_compatible (Base ANY) (CallableType [Base GRID] (Base INTEGER))
   \<and> is_type_compatible (CallableType [Base GRID] (Base INTEGER)) (Base ANY)"
  using wildcard_compatible_both_sides [of "CallableType [Base GRID] (Base INTEGER)"] by simp

text \<open>
  C6, as amended: two function types are compatible exactly when their input-type lists
  have the same length, whatever the element types and the output types; and a parameter
  of function type is incompatible with every argument that is neither a function type
  nor the wildcard. (The wildcard argument is accepted by the first rule, see C7.)
\<close>

theorem callable_compatibility:
  "(is_type_compatible (CallableType ins1 out1) (CallableType ins2 out2)
       \<longleftrightarrow> length ins1 = length ins2)
   \<and> (is_callable param_type \<and> \<not> is_callable arg_type \<and> arg_type \<noteq> Base ANY
       \<longrightarrow> \<not> is_type_compatible arg_type param_type)"
proof
  show "is_type_compatible (CallableType ins1 out1) (CallableType ins2 out2)
       \<longleftrightarrow> length ins1 = length ins2"
    by (auto simp: is_type_compatible_def type_sets)
next
  show "is_callable param_type \<and> \<not> is_callable arg_type \<and> arg_type \<noteq> Base ANY
       \<longrightarrow> \<not> is_type_compatible arg_type param_type"
    by (cases param_type; cases arg_type) (auto simp: is_type_compatible_def type_sets)
qed

theorem callable_compatibility_witness:
  "is_type_compatible (CallableType [Base GRID] (Base GRID)) (CallableType [Base ANY] (Base ANY))
   \<and> \<not> is_type_compatible (CallableType [Base GRID, Base GRID] (Base GRID))
         (CallableType [Base ANY] (Base ANY))
   \<and> is_callable (CallableType [Base ANY] (Base ANY)) \<and> \<not> is_callable (Base GRID)
   \<and> Base GRID \<noteq> Base ANY
   \<and> \<not> is_type_compatible (Base GRID) (CallableType [Base ANY] (Base ANY))"
  using callable_compatibility [of "[Base GRID]" "Base GRID" "[Base ANY]" "Base ANY"
          "CallableType [Base ANY] (Base ANY)" "Base GRID"]
        callable_compatibility [of "[Base GRID, Base GRID]" "Base GRID" "[Base ANY]" "Base ANY"
          "CallableType [Base ANY] (Base ANY)" "Base GRID"]
  by simp

text \<open>
  The claim as stated fails: the parameter is a function type, the argument (the
  wildcard) is not, and the two are compatible.
\<close>

theorem wildcard_argument_for_callable_parameter:
  "is_callable (CallableType [Base GRID] (Base GRID)) \<and> \<not> is_callable (Base ANY)
   \<and> is_type_compatible (Base ANY) (CallableType [Base GRID] (Base GRID))"
  by (simp add: is_type_compatible_def)

section \<open>Properties of the generator\<close>

lemma param_options_eq:
  "param_options nm env primitives pts =
     (let cands = map (\<lambda>param_type. get_possible_arguments param_type env primitives
            (nm \<in> FUNCTION_TAKING_PRIMITIVES \<and> is_callable param_type)) pts
      in if [] \<in> set cands then None else Some cands)"
  by (induction pts) (auto simp: Let_def)

lemma product_lists_empty_factor: "[] \<in> set xss \<Longrightarrow> product_lists xss = []"
  by (induction xss) auto


lemma no_grid_constants:
  "filter (\<lambda>(const_name, const_type). is_type_compatible const_type (Base GRID)) CONSTANTS = []"
  by (simp add: CONSTANTS_def is_type_compatible_def type_sets)

lemma grid_arguments:
  "get_possible_arguments (Base GRID) env primitives False =
     Argument kind_input ''I''
       # map (\<lambda>(var_name, var_type). Argument kind_variable var_name)
           (filter (\<lambda>(var_name, var_type).
              var_name \<noteq> ''I'' \<and> is_type_compatible var_type (Base GRID)) env)"
  by (simp add: get_possible_arguments_def no_grid_constants) (simp add: is_type_compatible_def)

lemma product_lists_single: "product_lists [xs] = map (\<lambda>a. [a]) xs"
  by (induction xs) auto

lemma mirror_bindings:
  "enumerate_bindings (mirror_info nm) env primitives =
     map (\<lambda>a. [a]) (get_possible_arguments (Base GRID) env primitives False)"
  by (simp add: enumerate_bindings_def mirror_info_def Let_def grid_arguments
        product_lists_single del: product_lists.simps)

lemma test_depth_1: "generate_at_depth 1 test_catalog = Inr [hmirror_I, vmirror_I]"
  by (simp add: generate_at_depth_def generate_single_step_def test_catalog_def
      mirror_bindings grid_arguments TypeEnv_init_def hmirror_I_def vmirror_I_def)
     (simp add: mirror_info_def is_type_compatible_def)

lemma test_execute_h:
  "execute_hypothesis hmirror_I (VGrid g) test_dsl test_constants = Inr (VGrid (rev g))"
  by (simp add: execute_hypothesis_def hmirror_I_def test_dsl_def resolve_arg_def test_call_def)

lemma test_execute_v:
  "execute_hypothesis vmirror_I (VGrid g) test_dsl test_constants = Inr (VGrid (map rev g))"
  by (simp add: execute_hypothesis_def vmirror_I_def test_dsl_def resolve_arg_def test_call_def)

lemma test_evaluate_h: "\<not> evaluate_hypothesis hmirror_I test_examples test_dsl test_constants"
  by (simp add: test_examples_def test_execute_h)

lemma test_evaluate_v: "evaluate_hypothesis vmirror_I test_examples test_dsl test_constants"
  by (simp add: test_examples_def test_execute_v)



text \<open>
  C5: a primitive with no parameter has exactly one binding, the empty one; if some
  parameter position has no candidate the primitive has no binding at all; otherwise
  its bindings are the cartesian product of the per-position candidate lists, in the
  order of itertools.product. In every case a binding is exactly a choice of one
  candidate per position.
\<close>

theorem enumerate_bindings_cartesian_product:
  "enumerate_bindings prim_info env primitives =
    (if param_types prim_info = [] then [[]]
     else if [] \<in> set (per_position_candidates prim_info env primitives) then []
     else product_lists (per_position_candidates prim_info env primitives))
   \<and> set (enumerate_bindings prim_info env primitives) =
       {binding. list_all2 (\<lambda>arg options. arg \<in> set options) binding
          (per_position_candidates prim_info env primitives)}"
proof -
  have "enumerate_bindings prim_info env primitives
          = product_lists (per_position_candidates prim_info env primitives)"
    by (simp add: enumerate_bindings_def param_options_eq per_position_candidates_def Let_def
          product_lists_empty_factor)
  then show ?thesis
    by (simp add: product_lists_set product_lists_empty_factor per_position_candidates_def)
qed

theorem enumerate_bindings_cartesian_product_witness:
  "enumerate_bindings (mirror_info ''vmirror'') TypeEnv_init test_catalog
     = [[Argument kind_input ''I'']]
   \<and> per_position_candidates (mirror_info ''vmirror'') TypeEnv_init test_catalog
     = [[Argument kind_input ''I'']]"
  using enumerate_bindings_cartesian_product
          [of "mirror_info ''vmirror''" TypeEnv_init test_catalog]
  by (simp add: per_position_candidates_def mirror_info_def grid_arguments TypeEnv_init_def)

lemma digit_char_inj: "a < 10 \<Longrightarrow> b < 10 \<Longrightarrow> digit_char a = digit_char b \<Longrightarrow> a = b"
proof -
  have "distinct ''0123456789''" by simp
  then show "a < 10 \<Longrightarrow> b < 10 \<Longrightarrow> digit_char a = digit_char b \<Longrightarrow> a = b"
    unfolding digit_char_def by (subst (asm) nth_eq_iff_index_eq) simp_all
qed

lemma str_nat_nonempty: "str_nat n \<noteq> []"
  by (subst str_nat.simps) simp

lemma str_nat_inj: "str_nat a = str_nat b \<Longrightarrow> a = b"
proof (induction a arbitrary: b rule: str_nat.induct)
  case (1 n)
  show ?case
  proof (cases "n < 10")
    case True
    note n = this
    show ?thesis
    proof (cases "b < 10")
      case True
      with n "1.prems" show ?thesis
        by (simp add: str_nat.simps[of n] str_nat.simps[of b] digit_char_inj)
    next
      case False
      with n "1.prems" str_nat_nonempty[of "b div 10"] show ?thesis
        by (simp add: str_nat.simps[of n] str_nat.simps[of b] append_eq_Cons_conv)
    qed
  next
    case False
    note n = this
    show ?thesis
    proof (cases "b < 10")
      case True
      with n "1.prems" str_nat_nonempty[of "n div 10"] show ?thesis
        by (simp add: str_nat.simps[of n] str_nat.simps[of b] Cons_eq_append_conv)
    next
      case False
      with n "1.prems" have e: "str_nat (n div 10) = str_nat (b div 10)"
        and d: "digit_char (n mod 10) = digit_char (b mod 10)"
        by (simp_all add: str_nat.simps[of n] str_nat.simps[of b])
      from "1.IH"[OF n e] have "n div 10 = b div 10" .
      moreover from d have "n mod 10 = b mod 10"
        by (intro digit_char_inj) simp_all
      ultimately show ?thesis
        by (metis div_mult_mod_eq)
    qed
  qed
qed

lemma str_nat_1': "str_nat (Suc 0) = ''1''"
  by (subst str_nat.simps) (simp add: digit_char_def)



lemma extend_hypothesis_shape:
  assumes "h \<in> set (extend_hypothesis partial primitives is_final)"
  shows "\<exists>s. steps h = steps partial @ [s]
           \<and> output_var s = (if is_final then ''O'' else next_var_name partial)"
  using assms
  by (auto simp: extend_hypothesis_def Let_def split: if_splits option.splits Type.splits)

lemma x_names_Suc: "map (\<lambda>i. ''x'' @ str_nat i) [1 ..< Suc (Suc n)]
    = map (\<lambda>i. ''x'' @ str_nat i) [1 ..< Suc n] @ [''x'' @ str_nat (Suc n)]"
  by simp

lemma partials_shape:
  "generate_partials_at_depth n primitives = Inr partials \<Longrightarrow> p \<in> set partials
     \<Longrightarrow> map output_var (steps p) = map (\<lambda>i. ''x'' @ str_nat i) [1 ..< Suc n]"
proof (induction n primitives arbitrary: partials p rule: generate_partials_at_depth.induct)
  case (1 primitives)
  then show ?case by simp
next
  case (2 primitives)
  then show ?case by (auto simp: str_nat_1')
next
  case (3 n primitives)
  from "3.prems"(1) obtain ps where ps: "generate_partials_at_depth (Suc n) primitives = Inr ps"
    and partials: "partials = concat (map (\<lambda>partial. extend_hypothesis partial primitives False) ps)"
    by (auto split: sum.splits)
  from "3.prems"(2) partials obtain q where q: "q \<in> set ps"
    and p: "p \<in> set (extend_hypothesis q primitives False)"
    by auto
  from "3.IH"[OF ps q] have qs: "map output_var (steps q) = map (\<lambda>i. ''x'' @ str_nat i) [1 ..< Suc (Suc n)]" .
  then have len: "length (steps q) = Suc n"
    by (metis length_map length_upt diff_Suc_1 One_nat_def)
  from extend_hypothesis_shape[OF p] obtain s where s: "steps p = steps q @ [s]"
    and o: "output_var s = next_var_name q" by auto
  show ?case
    using s o qs len by (simp add: next_var_name_def)
qed

lemma partials_total: "\<exists>ps. generate_partials_at_depth (Suc n) primitives = Inr ps"
  by (induction n) auto

lemma generate_at_depth_total: "1 \<le> d \<Longrightarrow> \<exists>hs. generate_at_depth d primitives = Inr hs"
proof -
  assume "1 \<le> d"
  show ?thesis
  proof (cases "d = 1 \<or> d = 2")
    case True
    then show ?thesis by (auto simp: generate_at_depth_def)
  next
    case False
    with \<open>1 \<le> d\<close> obtain n where "d - 1 = Suc n" by (cases "d - 1") auto
    with partials_total[of n primitives] False show ?thesis
      by (auto simp: generate_at_depth_def)
  qed
qed

lemma generate_at_depth_0: "generate_at_depth 0 primitives = Inl RecursionError"
  by (simp add: generate_at_depth_def)

lemma generate_at_depth_shape:
  assumes "generate_at_depth d primitives = Inr hs" and "h \<in> set hs"
  shows "map output_var (steps h) = map (\<lambda>i. ''x'' @ str_nat i) [1 ..< d] @ [''O'']"
proof -
  consider "d = 1" | "d = 2" | "d \<noteq> 1" "d \<noteq> 2" by blast
  then show ?thesis
  proof cases
    case 1
    with assms show ?thesis
      by (auto simp: generate_at_depth_def generate_single_step_def split: if_splits)
  next
    case 2
    with assms obtain nm binding where
      "h \<in> set (extend_hypothesis (Hypothesis [PrimitiveCall nm binding ''x1'']) primitives True)"
      by (auto simp: generate_at_depth_def)
    from extend_hypothesis_shape[OF this] obtain s
      where "steps h = [PrimitiveCall nm binding ''x1'', s]" "output_var s = ''O''" by auto
    moreover have "[1 ..< 2] = [Suc 0]" by (simp add: upt_rec)
    ultimately show ?thesis using 2 by (simp add: str_nat_1')
  next
    case 3
    with assms obtain ps p where ps: "generate_partials_at_depth (d - 1) primitives = Inr ps"
      and p: "p \<in> set ps" and h: "h \<in> set (extend_hypothesis p primitives True)"
      by (auto simp: generate_at_depth_def split: sum.splits)
    from ps have "d - 1 \<noteq> 0" by (cases "d - 1") auto
    then have d: "Suc (d - 1) = d" by simp
    from partials_shape[OF ps p] d
    have "map output_var (steps p) = map (\<lambda>i. ''x'' @ str_nat i) [1 ..< d]" by simp
    with extend_hypothesis_shape[OF h] show ?thesis by auto
  qed
qed

lemma generate_at_depth_length:
  assumes "generate_at_depth d primitives = Inr hs" and "h \<in> set hs"
  shows "length (steps h) = d"
proof -
  from assms(1) have "d \<noteq> 0" by (cases "d = 0") (auto simp: generate_at_depth_0)
  have "length (map output_var (steps h)) = length (map (\<lambda>i. ''x'' @ str_nat i) [1 ..< d] @ [''O''])"
    using generate_at_depth_shape[OF assms] by simp
  with \<open>d \<noteq> 0\<close> show ?thesis by simp
qed

lemma x_names_distinct: "distinct (map (\<lambda>i. ''x'' @ str_nat i) [1 ..< d] @ [''O''])"
  by (auto simp: distinct_map inj_on_def dest: str_nat_inj)

lemma single_step_grid:
  assumes "generate_at_depth 1 primitives = Inr hs" and "h \<in> set hs"
  shows "\<exists>prim_name prim_info binding. steps h = [PrimitiveCall prim_name binding ''O'']
           \<and> (prim_name, prim_info) \<in> set primitives
           \<and> is_type_compatible (return_type prim_info) (Base GRID)
           \<and> binding \<in> set (enumerate_bindings prim_info TypeEnv_init primitives)"
  using assms
  by (fastforce simp: generate_at_depth_def generate_single_step_def split: if_splits)

text \<open>
  C4: a hypothesis generated at depth d has exactly d steps; its output variables are
  x1, ..., x(d-1) in this order followed by O on the last step, so no name is used
  twice; and at depth 1 the single step calls a catalog primitive whose declared
  return type is compatible with Grid.
\<close>

theorem generated_hypothesis_shape:
  assumes "generate_at_depth d primitives = Inr hs" and "h \<in> set hs"
  shows "length (steps h) = d
    \<and> map output_var (steps h) = map (\<lambda>i. ''x'' @ str_nat i) [1 ..< d] @ [''O'']
    \<and> distinct (map output_var (steps h))
    \<and> (d = 1 \<longrightarrow>
         (\<exists>prim_name prim_info binding.
            steps h = [PrimitiveCall prim_name binding ''O'']
            \<and> (prim_name, prim_info) \<in> set primitives
            \<and> is_type_compatible (return_type prim_info) (Base GRID)))"
proof -
  have names: "map output_var (steps h) = map (\<lambda>i. ''x'' @ str_nat i) [1 ..< d] @ [''O'']"
    by (rule generate_at_depth_shape[OF assms])
  have "d = 1 \<longrightarrow>
         (\<exists>prim_name prim_info binding.
            steps h = [PrimitiveCall prim_name binding ''O'']
            \<and> (prim_name, prim_info) \<in> set primitives
            \<and> is_type_compatible (return_type prim_info) (Base GRID))"
    using single_step_grid[of primitives hs h] assms by blast
  with names generate_at_depth_length[OF assms] x_names_distinct[of d] show ?thesis
    by simp
qed


lemma test_depth_2:
  "generate_at_depth 2 test_catalog =
     Inr [two_mirrors ''hmirror'' (Argument kind_input ''I'') ''hmirror'' (Argument kind_input ''I''),
          two_mirrors ''hmirror'' (Argument kind_input ''I'') ''hmirror'' (Argument kind_variable ''x1''),
          two_mirrors ''hmirror'' (Argument kind_input ''I'') ''vmirror'' (Argument kind_input ''I''),
          two_mirrors ''hmirror'' (Argument kind_input ''I'') ''vmirror'' (Argument kind_variable ''x1''),
          two_mirrors ''vmirror'' (Argument kind_input ''I'') ''hmirror'' (Argument kind_input ''I''),
          two_mirrors ''vmirror'' (Argument kind_input ''I'') ''hmirror'' (Argument kind_variable ''x1''),
          two_mirrors ''vmirror'' (Argument kind_input ''I'') ''vmirror'' (Argument kind_input ''I''),
          two_mirrors ''vmirror'' (Argument kind_input ''I'') ''vmirror'' (Argument kind_variable ''x1'')]"
  by (simp add: generate_at_depth_def test_catalog_def mirror_bindings grid_arguments
       TypeEnv_init_def extend_hypothesis_def Let_def build_type_env_def get_callable_vars_def
       HIGHER_ORDER_RETURNING_CALLABLE_def two_mirrors_def)
     (simp add: mirror_info_def is_type_compatible_def)

theorem generated_hypothesis_shape_witness:
  "generate_at_depth 2 test_catalog =
     Inr [two_mirrors ''hmirror'' (Argument kind_input ''I'') ''hmirror'' (Argument kind_input ''I''),
          two_mirrors ''hmirror'' (Argument kind_input ''I'') ''hmirror'' (Argument kind_variable ''x1''),
          two_mirrors ''hmirror'' (Argument kind_input ''I'') ''vmirror'' (Argument kind_input ''I''),
          two_mirrors ''hmirror'' (Argument kind_input ''I'') ''vmirror'' (Argument kind_variable ''x1''),
          two_mirrors ''vmirror'' (Argument kind_input ''I'') ''hmirror'' (Argument kind_input ''I''),
          two_mirrors ''vmirror'' (Argument kind_input ''I'') ''hmirror'' (Argument kind_variable ''x1''),
          two_mirrors ''vmirror'' (Argument kind_input ''I'') ''vmirror'' (Argument kind_input ''I''),
          two_mirrors ''vmirror'' (Argument kind_input ''I'') ''vmirror'' (Argument kind_variable ''x1'')]
   \<and> length (steps (two_mirrors ''hmirror'' (Argument kind_input ''I'') ''vmirror''
                      (Argument kind_variable ''x1''))) = 2
   \<and> map output_var (steps (two_mirrors ''hmirror'' (Argument kind_input ''I'') ''vmirror''
                      (Argument kind_variable ''x1''))) = [''x1'', ''O'']
   \<and> distinct (map output_var (steps (two_mirrors ''hmirror'' (Argument kind_input ''I'')
                      ''vmirror'' (Argument kind_variable ''x1''))))"
proof -
  have "length (steps (two_mirrors ''hmirror'' (Argument kind_input ''I'') ''vmirror''
                      (Argument kind_variable ''x1''))) = 2"
    using generated_hypothesis_shape [OF test_depth_2,
          of "two_mirrors ''hmirror'' (Argument kind_input ''I'') ''vmirror''
                (Argument kind_variable ''x1'')"]
    by simp
  then show ?thesis
    by (simp add: test_depth_2) (simp add: two_mirrors_def)
qed

section \<open>Properties of the evaluator\<close>

lemma test_execute_undefined:
  "execute_hypothesis rot90_I g test_dsl test_constants = Inl (AttributeError ''rot90'')"
  by (simp add: execute_hypothesis_def rot90_I_def test_dsl_def)

text \<open>
  C2: evaluate_hypothesis returns True exactly when, for every example pair, executing the
  hypothesis on the input succeeds and returns the expected output; a failed execution
  on any pair makes it False. The result is a plain truth value: the exception raised
  by the execution is caught by the except clause and does not reach the caller.
\<close>

theorem evaluate_iff_all_examples_pass:
  "(evaluate_hypothesis h examples dsl constants \<longleftrightarrow>
     (\<forall>(input_grid, expected_output) \<in> set examples.
         execute_hypothesis h input_grid dsl constants = Inr expected_output))
   \<and> ((\<exists>input_grid expected_output e. (input_grid, expected_output) \<in> set examples
          \<and> execute_hypothesis h input_grid dsl constants = Inl e)
        \<longrightarrow> \<not> evaluate_hypothesis h examples dsl constants)"
proof -
  have "evaluate_hypothesis h examples dsl constants \<longleftrightarrow>
     (\<forall>(input_grid, expected_output) \<in> set examples.
         execute_hypothesis h input_grid dsl constants = Inr expected_output)"
    by (induction examples) (auto split: sum.splits if_splits)
  then show ?thesis by fastforce
qed

theorem evaluate_iff_all_examples_pass_witness:
  "evaluate_hypothesis vmirror_I test_examples test_dsl test_constants
   \<and> execute_hypothesis vmirror_I (VGrid [[1, 2, 3], [4, 5, 6]]) test_dsl test_constants
       = Inr (VGrid [[3, 2, 1], [6, 5, 4]])
   \<and> execute_hypothesis vmirror_I (VGrid [[7, 8], [9, 0]]) test_dsl test_constants
       = Inr (VGrid [[8, 7], [0, 9]])
   \<and> execute_hypothesis rot90_I (VGrid [[1, 2, 3], [4, 5, 6]]) test_dsl test_constants
       = Inl (AttributeError ''rot90'')
   \<and> \<not> evaluate_hypothesis rot90_I test_examples test_dsl test_constants"
  using evaluate_iff_all_examples_pass [of vmirror_I test_examples test_dsl test_constants]
        evaluate_iff_all_examples_pass [of rot90_I test_examples test_dsl test_constants]
  by (simp add: test_examples_def test_execute_v test_execute_undefined)

section \<open>Properties of the lambda renderer\<close>

text \<open>
  C8: hypothesis_to_lambda succeeds exactly on a hypothesis that is a single
  PrimitiveCall step, and then returns the one-expression form; on a hypothesis whose
  number of steps is not one, and on a single CallVariable step, it raises a ValueError.
\<close>

theorem lambda_renders_single_primitive_call: "((\<exists>s. hypothesis_to_lambda h = Inr s) \<longleftrightarrow> (\<exists>p args out. steps h = [PrimitiveCall p args out]))
  \<and> (\<forall>p args out. steps h = [PrimitiveCall p args out] \<longrightarrow>
        hypothesis_to_lambda h
          = Inr (''lambda I: '' @ p @ ''('' @ join '', '' (map format_arg args) @ '')''))
  \<and> (length (steps h) \<noteq> 1 \<longrightarrow>
        hypothesis_to_lambda h
          = Inl (ValueError ''Can only convert single-step hypotheses to lambda''))
  \<and> (\<forall>c args out. steps h = [CallVariable c args out] \<longrightarrow>
        hypothesis_to_lambda h = Inl (ValueError ''Cannot convert variable call to lambda''))"
proof (cases "steps h")
  case Nil
  then show ?thesis by (simp add: hypothesis_to_lambda_def)
next
  case (Cons s rest)
  then show ?thesis
    by (cases s; cases rest) (simp_all add: hypothesis_to_lambda_def)
qed

theorem lambda_renders_single_primitive_call_witness:
  "steps vmirror_I = [PrimitiveCall ''vmirror'' [Argument kind_input ''I''] ''O'']
   \<and> hypothesis_to_lambda vmirror_I = Inr ''lambda I: vmirror(I)''
   \<and> length (steps (two_mirrors ''hmirror'' (Argument kind_input ''I'') ''vmirror''
                      (Argument kind_variable ''x1''))) \<noteq> 1
   \<and> hypothesis_to_lambda (two_mirrors ''hmirror'' (Argument kind_input ''I'') ''vmirror''
                      (Argument kind_variable ''x1''))
       = Inl (ValueError ''Can only convert single-step hypotheses to lambda'')
   \<and> hypothesis_to_lambda (Hypothesis [CallVariable ''x1'' [Argument kind_input ''I''] ''O''])
       = Inl (ValueError ''Cannot convert variable call to lambda'')"
  using lambda_renders_single_primitive_call [of vmirror_I]
        lambda_renders_single_primitive_call [of "two_mirrors ''hmirror'' (Argument kind_input ''I'') ''vmirror''
                      (Argument kind_variable ''x1'')"]
        lambda_renders_single_primitive_call [of "Hypothesis [CallVariable ''x1'' [Argument kind_input ''I''] ''O'']"]
  by (simp add: vmirror_I_def two_mirrors_def format_arg_def)

section \<open>Properties of the search loop\<close>

text \<open>
  What the fuel of the model hides: nothing. The search raises no exception of its own;
  with a max_depth it returns once the fuel exceeds it; and a run that has returned
  returns the same with any more fuel.
\<close>

lemma search_depths_no_raise:
  "1 \<le> d \<Longrightarrow> fst (search_depths fuel ex tid dsl constants prims md tmo clock start d st)
      \<noteq> Some (Inl e)"
proof (induction fuel arbitrary: d st)
  case 0
  then show ?case by simp
next
  case (Suc fuel)
  from generate_at_depth_total[OF Suc.prems, of prims] obtain hs
    where hs: "generate_at_depth d prims = Inr hs" by blast
  obtain r st1 where t: "try_hypotheses ex tid dsl constants tmo clock start d hs st = (r, st1)"
    by (cases "try_hypotheses ex tid dsl constants tmo clock start d hs st")
  have "1 \<le> d + 1" by simp
  from Suc.IH[OF this, of st1] hs t show ?case
    by (cases r) auto
qed

lemma search_no_raise:
  "fst (search fuel task_examples task_id dsl constants max_depth timeout clock) \<noteq> Some (Inl e)"
  using search_depths_no_raise[of 1]
  by (simp add: search_def time_time_def del: One_nat_def)

lemma search_depths_enough_fuel:
  "nat (m + 1) - d < fuel
    \<Longrightarrow> fst (search_depths fuel ex tid dsl constants prims (Some m) tmo clock start d st) \<noteq> None"
proof (induction fuel arbitrary: d st)
  case 0
  then show ?case by simp
next
  case (Suc fuel)
  show ?case
  proof (cases "int d \<le> m")
    case False
    then show ?thesis by simp
  next
    case True
    then have f: "nat (m + 1) - (d + 1) < fuel" using Suc.prems by linarith
    show ?thesis
    proof (cases "generate_at_depth d prims")
      case (Inl e)
      with True show ?thesis by simp
    next
      case (Inr hs)
      obtain r st1 where t: "try_hypotheses ex tid dsl constants tmo clock start d hs st = (r, st1)"
        by (cases "try_hypotheses ex tid dsl constants tmo clock start d hs st")
      from Suc.IH[OF f, of st1] True Inr t show ?thesis
        by (cases r) auto
    qed
  qed
qed

lemma search_returns_with_max_depth:
  "nat m < fuel
    \<Longrightarrow> fst (search fuel task_examples task_id dsl constants (Some m) timeout clock) \<noteq> None"
proof -
  assume "nat m < fuel"
  then have "nat (m + 1) - 1 < fuel" by linarith
  from search_depths_enough_fuel[OF this] show ?thesis
    by (simp add: search_def time_time_def del: One_nat_def)
qed

lemma search_depths_more_fuel:
  "search_depths fuel ex tid dsl constants prims md tmo clock start d st = (Some r, st')
    \<Longrightarrow> search_depths (fuel + k) ex tid dsl constants prims md tmo clock start d st = (Some r, st')"
proof (induction fuel arbitrary: d st)
  case 0
  then show ?case by simp
next
  case (Suc fuel)
  show ?case
  proof (cases "case md of None \<Rightarrow> True | Some m \<Rightarrow> int d \<le> m")
    case False
    with Suc.prems show ?thesis by auto
  next
    case True
    note md = this
    show ?thesis
    proof (cases "generate_at_depth d prims")
      case (Inl e)
      with Suc.prems md show ?thesis by auto
    next
      case (Inr hs)
      obtain r1 st1 where t: "try_hypotheses ex tid dsl constants tmo clock start d hs st = (r1, st1)"
        by (cases "try_hypotheses ex tid dsl constants tmo clock start d hs st")
      show ?thesis
      proof (cases r1)
        case None
        with Suc.prems md Inr t have
          "search_depths fuel ex tid dsl constants prims md tmo clock start (d + 1) st1 = (Some r, st')"
          by simp
        from Suc.IH[OF this] None md Inr t show ?thesis by simp
      next
        case (Some a)
        with Suc.prems md Inr t show ?thesis by simp
      qed
    qed
  qed
qed

lemma search_more_fuel:
  "search fuel task_examples task_id dsl constants max_depth timeout clock = (Some r, st)
    \<Longrightarrow> search (fuel + k) task_examples task_id dsl constants max_depth timeout clock = (Some r, st)"
  by (simp add: search_def time_time_def search_depths_more_fuel del: One_nat_def)

lemma try_hypotheses_found:
  "try_hypotheses ex tid dsl constants tmo clock start d hs st = (Some (Some r), st')
   \<Longrightarrow> \<exists>pre post. hs = pre @ hypothesis r # post
         \<and> (\<forall>h \<in> set pre. \<not> evaluate_hypothesis h ex dsl constants)
         \<and> evaluate_hypothesis (hypothesis r) ex dsl constants
         \<and> depth r = d"
proof (induction hs arbitrary: st)
  case Nil
  then show ?case by simp
next
  case (Cons h hs)
  obtain expired st1 where t: "timed_out tmo clock start st = (expired, st1)"
    by (cases "timed_out tmo clock start st")
  show ?case
  proof (cases "evaluate_hypothesis h ex dsl constants")
    case True
    with Cons.prems t have "hypothesis r = h \<and> depth r = d"
      by (auto simp: Let_def split: if_splits prod.splits)
    with True have "h # hs = [] @ hypothesis r # hs
        \<and> (\<forall>h \<in> set []. \<not> evaluate_hypothesis h ex dsl constants)
        \<and> evaluate_hypothesis (hypothesis r) ex dsl constants \<and> depth r = d" by simp
    then show ?thesis by blast
  next
    case False
    with Cons.prems t obtain st2 where
      "try_hypotheses ex tid dsl constants tmo clock start d hs st2 = (Some (Some r), st')"
      by (auto simp: Let_def split: if_splits)
    from Cons.IH[OF this] obtain pre post where
      "hs = pre @ hypothesis r # post" "\<forall>h \<in> set pre. \<not> evaluate_hypothesis h ex dsl constants"
      "evaluate_hypothesis (hypothesis r) ex dsl constants" "depth r = d" by auto
    with False have "h # hs = (h # pre) @ hypothesis r # post
        \<and> (\<forall>h \<in> set (h # pre). \<not> evaluate_hypothesis h ex dsl constants)
        \<and> evaluate_hypothesis (hypothesis r) ex dsl constants \<and> depth r = d" by simp
    then show ?thesis by blast
  qed
qed

lemma try_hypotheses_exhausted:
  "try_hypotheses ex tid dsl constants tmo clock start d hs st = (None, st')
   \<Longrightarrow> \<forall>h \<in> set hs. \<not> evaluate_hypothesis h ex dsl constants"
proof (induction hs arbitrary: st)
  case Nil
  then show ?case by simp
next
  case (Cons h hs)
  obtain expired st1 where t: "timed_out tmo clock start st = (expired, st1)"
    by (cases "timed_out tmo clock start st")
  from Cons.prems t have "\<not> evaluate_hypothesis h ex dsl constants"
    by (auto simp: Let_def split: if_splits prod.splits)
  moreover from Cons.prems t this obtain st2 where
    "try_hypotheses ex tid dsl constants tmo clock start d hs st2 = (None, st')"
    by (auto simp: Let_def split: if_splits)
  from Cons.IH[OF this] have "\<forall>h \<in> set hs. \<not> evaluate_hypothesis h ex dsl constants" .
  ultimately show ?case by simp
qed

lemma search_depths_found:
  "search_depths fuel ex tid dsl constants prims md tmo clock start d0 st = (Some (Inr (Some r)), st')
   \<Longrightarrow> d0 \<le> depth r
     \<and> (\<exists>pre post. generate_at_depth (depth r) prims = Inr (pre @ hypothesis r # post)
           \<and> (\<forall>h \<in> set pre. \<not> evaluate_hypothesis h ex dsl constants))
     \<and> evaluate_hypothesis (hypothesis r) ex dsl constants
     \<and> (\<forall>d hs. d0 \<le> d \<and> d < depth r \<and> generate_at_depth d prims = Inr hs
           \<longrightarrow> (\<forall>h \<in> set hs. \<not> evaluate_hypothesis h ex dsl constants))"
proof (induction fuel arbitrary: d0 st)
  case 0
  then show ?case by simp
next
  case (Suc fuel)
  from Suc.prems obtain hs where g: "generate_at_depth d0 prims = Inr hs"
    by (auto split: if_splits sum.splits)
  obtain res st1 where t: "try_hypotheses ex tid dsl constants tmo clock start d0 hs st = (res, st1)"
    by (cases "try_hypotheses ex tid dsl constants tmo clock start d0 hs st")
  show ?case
  proof (cases res)
    case None
    with Suc.prems g t have
      "search_depths fuel ex tid dsl constants prims md tmo clock start (d0 + 1) st1
         = (Some (Inr (Some r)), st')"
      by (auto split: if_splits)
    from Suc.IH[OF this] have ih: "d0 + 1 \<le> depth r"
      "\<exists>pre post. generate_at_depth (depth r) prims = Inr (pre @ hypothesis r # post)
           \<and> (\<forall>h \<in> set pre. \<not> evaluate_hypothesis h ex dsl constants)"
      "evaluate_hypothesis (hypothesis r) ex dsl constants"
      "\<forall>d hs. d0 + 1 \<le> d \<and> d < depth r \<and> generate_at_depth d prims = Inr hs
           \<longrightarrow> (\<forall>h \<in> set hs. \<not> evaluate_hypothesis h ex dsl constants)"
      by auto
    from t None have ex0: "\<forall>h \<in> set hs. \<not> evaluate_hypothesis h ex dsl constants"
      by (auto dest: try_hypotheses_exhausted)
    have "\<forall>d hs'. d0 \<le> d \<and> d < depth r \<and> generate_at_depth d prims = Inr hs'
           \<longrightarrow> (\<forall>h \<in> set hs'. \<not> evaluate_hypothesis h ex dsl constants)"
    proof (intro allI impI)
      fix d hs' assume a: "d0 \<le> d \<and> d < depth r \<and> generate_at_depth d prims = Inr hs'"
      show "\<forall>h \<in> set hs'. \<not> evaluate_hypothesis h ex dsl constants"
      proof (cases "d = d0")
        case True
        with a g ex0 show ?thesis by simp
      next
        case False
        with a ih(4) show ?thesis by (metis Suc_eq_plus1 Suc_leI le_neq_implies_less)
      qed
    qed
    with ih show ?thesis by auto
  next
    case (Some r')
    with Suc.prems g t have r': "r' = Some r"
      by (auto split: if_splits)
    from try_hypotheses_found[OF t[unfolded Some r']] g show ?thesis by auto
  qed
qed

lemma find_append_none: "\<forall>x \<in> set xs. \<not> P x \<Longrightarrow> find P (xs @ ys) = find P ys"
  by (induction xs) auto

lemma generate_depths_append:
  "generate_depths ds prims = Inr xs \<Longrightarrow> generate_at_depth d prims = Inr ys
     \<Longrightarrow> generate_depths (ds @ [d]) prims = Inr (xs @ ys)"
  by (induction ds arbitrary: xs) (auto split: sum.splits)

lemma generate_depths_upto:
  "\<forall>d hs. d0 \<le> d \<and> d < d1 \<and> generate_at_depth d prims = Inr hs \<longrightarrow> (\<forall>h \<in> set hs. \<not> P h)
    \<Longrightarrow> 1 \<le> d0
    \<Longrightarrow> \<exists>xs. generate_depths [d0 ..< d1] prims = Inr xs \<and> (\<forall>h \<in> set xs. \<not> P h)"
proof (induction d1)
  case 0
  then show ?case by simp
next
  case (Suc d1)
  show ?case
  proof (cases "d0 \<le> d1")
    case False
    then show ?thesis by simp
  next
    case True
    from Suc.prems(1) have "\<forall>d hs. d0 \<le> d \<and> d < d1 \<and> generate_at_depth d prims = Inr hs
        \<longrightarrow> (\<forall>h \<in> set hs. \<not> P h)"
      by (meson less_Suc_eq)
    from Suc.IH[OF this Suc.prems(2)] obtain xs where
      xs: "generate_depths [d0 ..< d1] prims = Inr xs" "\<forall>h \<in> set xs. \<not> P h" by auto
    from True Suc.prems(2) obtain ys where ys: "generate_at_depth d1 prims = Inr ys"
      using generate_at_depth_total[of d1 prims] by auto
    with Suc.prems(1) True have "\<forall>h \<in> set ys. \<not> P h" by auto
    with generate_depths_append[OF xs(1) ys] xs(2) True show ?thesis by auto
  qed
qed


text \<open>
  C1: whatever the examples, the catalog and the depth and time budgets, when search
  returns a SearchResult r, its hypothesis is the first one that passes all examples in
  the enumeration order of the depths 1, 2, ..., depth r; it has depth r steps; and no
  generated hypothesis with fewer steps passes all examples.
\<close>

theorem search_returns_first_passing:
  assumes "fst (search fuel task_examples task_id dsl constants max_depth timeout clock)
             = Some (Inr (Some r))"
  shows "(\<exists>enumeration.
            generate_hypotheses (depth r) (extract_primitives dsl) = Inr enumeration
            \<and> find (\<lambda>h. evaluate_hypothesis h task_examples dsl constants) enumeration
                = Some (hypothesis r))
         \<and> length (steps (hypothesis r)) = depth r
         \<and> (\<forall>d hs h. generate_at_depth d (extract_primitives dsl) = Inr hs \<and> h \<in> set hs
               \<and> length (steps h) < length (steps (hypothesis r))
              \<longrightarrow> \<not> evaluate_hypothesis h task_examples dsl constants)"
proof -
  let ?P = "\<lambda>h. evaluate_hypothesis h task_examples dsl constants"
  let ?prims = "extract_primitives dsl"
  from assms obtain start st0 st' where
    "search_depths fuel task_examples task_id dsl constants ?prims max_depth timeout clock start 1 st0
       = (Some (Inr (Some r)), st')"
    by (auto simp: search_def Let_def split: prod.splits) (metis prod.collapse)
  from search_depths_found[OF this] obtain pre post where
    d: "1 \<le> depth r" and g: "generate_at_depth (depth r) ?prims = Inr (pre @ hypothesis r # post)"
    and pre: "\<forall>h \<in> set pre. \<not> ?P h" and ok: "?P (hypothesis r)"
    and shallow: "\<forall>d hs. 1 \<le> d \<and> d < depth r \<and> generate_at_depth d ?prims = Inr hs
           \<longrightarrow> (\<forall>h \<in> set hs. \<not> ?P h)"
    by auto
  from generate_depths_upto[OF shallow] obtain xs where
    xs: "generate_depths [1 ..< depth r] ?prims = Inr xs" "\<forall>h \<in> set xs. \<not> ?P h" by auto
  from d have "[1 ..< depth r + 1] = [1 ..< depth r] @ [depth r]" by simp
  with generate_depths_append[OF xs(1) g]
  have "generate_hypotheses (depth r) ?prims = Inr (xs @ pre @ hypothesis r # post)"
    by (simp add: generate_hypotheses_def)
  moreover have "find ?P (xs @ pre @ hypothesis r # post) = Some (hypothesis r)"
    using xs(2) pre ok by (simp add: find_append_none)
  ultimately have first: "\<exists>enumeration.
            generate_hypotheses (depth r) ?prims = Inr enumeration
            \<and> find ?P enumeration = Some (hypothesis r)" by blast
  from generate_at_depth_length[OF g] have len: "length (steps (hypothesis r)) = depth r" by simp
  have "\<not> ?P h" if "generate_at_depth d' ?prims = Inr hs" "h \<in> set hs"
      "length (steps h) < length (steps (hypothesis r))" for d' hs h
  proof -
    from generate_at_depth_length[OF that(1,2)] that(3) len have "d' < depth r" by simp
    moreover from that(1) have "1 \<le> d'"
      by (cases "d' = 0") (auto simp: generate_at_depth_0)
    ultimately show ?thesis using shallow that(1,2) by blast
  qed
  with first len show ?thesis by blast
qed

lemma test_depth_1_Suc: "generate_at_depth (Suc 0) test_catalog = Inr [hmirror_I, vmirror_I]"
  using test_depth_1 by simp

lemma test_extract: "extract_primitives test_dsl = test_catalog"
  by (simp add: extract_primitives_def test_dsl_def)

lemma test_steps: "length (steps vmirror_I) = Suc 0" "length (steps hmirror_I) = Suc 0"
  by (simp_all add: vmirror_I_def hmirror_I_def)

lemma test_search:
  "fst (search (Suc 0) test_examples ''test_vmirror'' test_dsl test_constants (Some 2) (Some 10) real)
     = Some (Inr (Some test_result))"
  by (simp add: search_def test_extract Let_def time_time_def
        timed_out_def test_depth_1_Suc test_evaluate_h test_evaluate_v test_result_def)

lemma test_generate_hypotheses_1:
  "generate_hypotheses (Suc 0) test_catalog = Inr [hmirror_I, vmirror_I]"
  by (simp add: generate_hypotheses_def test_depth_1_Suc)

theorem search_returns_first_passing_witness:
  "fst (search (Suc 0) test_examples ''test_vmirror'' test_dsl test_constants (Some 2) (Some 10) real)
     = Some (Inr (Some test_result))
   \<and> generate_hypotheses (depth test_result) (extract_primitives test_dsl)
       = Inr [hmirror_I, vmirror_I]
   \<and> find (\<lambda>h. evaluate_hypothesis h test_examples test_dsl test_constants)
        [hmirror_I, vmirror_I] = Some (hypothesis test_result)
   \<and> length (steps (hypothesis test_result)) = depth test_result"
  using search_returns_first_passing [OF test_search] test_search
  by (simp add: test_result_def test_extract test_generate_hypotheses_1
        test_evaluate_h test_evaluate_v test_steps)

subsection \<open>A timeout of 0\<close>

lemma timed_out_zero: "timed_out (Some 0) clock start st = timed_out None clock start st"
  by (simp add: timed_out_def)

lemma try_hypotheses_zero:
  "try_hypotheses ex tid dsl constants (Some 0) clock start d hs st
     = try_hypotheses ex tid dsl constants None clock start d hs st"
  by (induction hs arbitrary: st) (auto simp: timed_out_zero Let_def split: prod.splits)

lemma search_depths_zero:
  "search_depths fuel ex tid dsl constants prims md (Some 0) clock start d st
     = search_depths fuel ex tid dsl constants prims md None clock start d st"
  by (induction fuel arbitrary: d st)
     (auto simp: try_hypotheses_zero split: sum.splits prod.splits option.splits)

lemma try_hypotheses_cb_zero:
  "try_hypotheses_cb ex tid dsl constants (Some 0) clock start d hs st
     = try_hypotheses_cb ex tid dsl constants None clock start d hs st"
  by (induction hs arbitrary: st) (auto simp: Let_def)

lemma search_depths_cb_zero:
  "search_depths_cb fuel ex tid dsl constants prims md (Some 0) clock start d st
     = search_depths_cb fuel ex tid dsl constants prims md None clock start d st"
  by (induction fuel arbitrary: d st)
     (auto simp: try_hypotheses_cb_zero split: sum.splits prod.splits option.splits)

lemma try_hypotheses_unchecked:
  "tmo = None \<or> tmo = Some 0 \<Longrightarrow> try_hypotheses ex tid dsl constants tmo clock start d hs st = (res, st')
    \<Longrightarrow> \<forall>e. Checked e \<notin> set (trace st) \<Longrightarrow> \<forall>e. Checked e \<notin> set (trace st')"
proof (induction hs arbitrary: st)
  case Nil
  then show ?case by simp
next
  case (Cons h hs)
  from Cons.prems(1) have t: "timed_out tmo clock start st = (False, st)"
    by (auto simp: timed_out_def)
  let ?st2 = "st\<lparr>total_tried := total_tried st + 1, trace := trace st @ [Evaluated h]\<rparr>"
  have n2: "\<forall>e. Checked e \<notin> set (trace ?st2)" using Cons.prems(3) by simp
  show ?case
  proof (cases "evaluate_hypothesis h ex dsl constants")
    case True
    with Cons.prems(2) t have "trace st' = trace ?st2"
      by (auto simp: Let_def time_time_def)
    with n2 show ?thesis by simp
  next
    case False
    with Cons.prems(2) t have "try_hypotheses ex tid dsl constants tmo clock start d hs ?st2 = (res, st')"
      by (simp add: Let_def)
    from Cons.IH[OF Cons.prems(1) this n2] show ?thesis .
  qed
qed

lemma search_depths_unchecked:
  "tmo = None \<or> tmo = Some 0
    \<Longrightarrow> search_depths fuel ex tid dsl constants prims md tmo clock start d st = (res, st')
    \<Longrightarrow> \<forall>e. Checked e \<notin> set (trace st) \<Longrightarrow> \<forall>e. Checked e \<notin> set (trace st')"
proof (induction fuel arbitrary: d st)
  case 0
  then show ?case by simp
next
  case (Suc fuel)
  show ?case
  proof (cases "case md of None \<Rightarrow> True | Some m \<Rightarrow> int d \<le> m")
    case False
    with Suc.prems show ?thesis by auto
  next
    case True
    note md = this
    show ?thesis
    proof (cases "generate_at_depth d prims")
      case (Inl e)
      with Suc.prems md show ?thesis by auto
    next
      case (Inr hs)
      obtain r st1 where t: "try_hypotheses ex tid dsl constants tmo clock start d hs st = (r, st1)"
        by (cases "try_hypotheses ex tid dsl constants tmo clock start d hs st")
      from try_hypotheses_unchecked[OF Suc.prems(1) t Suc.prems(3)]
      have n1: "\<forall>e. Checked e \<notin> set (trace st1)" .
      show ?thesis
      proof (cases r)
        case None
        with Suc.prems(2) md Inr t have
          "search_depths fuel ex tid dsl constants prims md tmo clock start (d + 1) st1 = (res, st')"
          by simp
        from Suc.IH[OF Suc.prems(1) this n1] show ?thesis .
      next
        case (Some a)
        with Suc.prems(2) md Inr t have "st' = st1" by simp
        with n1 show ?thesis by simp
      qed
    qed
  qed
qed

lemma test_search_zero:
  "search (Suc 0) test_examples ''t'' test_dsl test_constants (Some 1) (Some 0) real
     = (Some (Inr (Some \<lparr>hypothesis = vmirror_I, code = hypothesis_to_code vmirror_I ''t'',
                           depth = 1, hypotheses_tried = 2, time_elapsed = 1\<rparr>)),
        \<lparr>ticks = 2, total_tried = 2, trace = [Evaluated hmirror_I, Evaluated vmirror_I]\<rparr>)"
  by (simp add: search_def test_extract Let_def time_time_def
        timed_out_def test_depth_1_Suc test_evaluate_h test_evaluate_v)

lemma test_search_none:
  "search (Suc 0) test_examples ''t'' test_dsl test_constants (Some 1) None real
     = (Some (Inr (Some \<lparr>hypothesis = vmirror_I, code = hypothesis_to_code vmirror_I ''t'',
                           depth = 1, hypotheses_tried = 2, time_elapsed = 1\<rparr>)),
        \<lparr>ticks = 2, total_tried = 2, trace = [Evaluated hmirror_I, Evaluated vmirror_I]\<rparr>)"
  by (simp add: search_def test_extract Let_def time_time_def
        timed_out_def test_depth_1_Suc test_evaluate_h test_evaluate_v)

text \<open>
  C9: with a timeout of 0, search and search_with_callback behave exactly as with no
  timeout (same result, same final state), and search makes no timeout check at all.
\<close>

theorem zero_timeout_disables_check:
  "search fuel task_examples task_id dsl constants max_depth (Some 0) clock
     = search fuel task_examples task_id dsl constants max_depth None clock
   \<and> search_with_callback fuel task_examples task_id dsl constants max_depth (Some 0) clock
     = search_with_callback fuel task_examples task_id dsl constants max_depth None clock
   \<and> (\<forall>e. Checked e
          \<notin> set (trace (snd (search fuel task_examples task_id dsl constants max_depth (Some 0) clock))))"
proof -
  have "\<forall>e. Checked e
          \<notin> set (trace (snd (search fuel task_examples task_id dsl constants max_depth (Some 0) clock)))"
    using search_depths_unchecked[of "Some 0" fuel task_examples task_id dsl constants
        "extract_primitives dsl" max_depth clock "clock 0" 1
        "\<lparr>ticks = Suc 0, total_tried = 0, trace = []\<rparr>"]
    by (cases "search_depths fuel task_examples task_id dsl constants (extract_primitives dsl)
          max_depth (Some 0) clock (clock 0) 1 \<lparr>ticks = Suc 0, total_tried = 0, trace = []\<rparr>")
       (simp add: search_def time_time_def)
  then show ?thesis
    by (simp add: search_def search_with_callback_def search_depths_zero search_depths_cb_zero)
qed

theorem zero_timeout_disables_check_witness:
  "search (Suc 0) test_examples ''t'' test_dsl test_constants (Some 1) (Some 0) real
     = search (Suc 0) test_examples ''t'' test_dsl test_constants (Some 1) None real
   \<and> fst (search (Suc 0) test_examples ''t'' test_dsl test_constants (Some 1) None real)
     = Some (Inr (Some \<lparr>hypothesis = vmirror_I, code = hypothesis_to_code vmirror_I ''t'',
                           depth = 1, hypotheses_tried = 2, time_elapsed = 1\<rparr>))"
  using zero_timeout_disables_check [of "Suc 0" test_examples "''t''" test_dsl test_constants "Some 1" real]
  by (simp add: test_search_none)

subsection \<open>A timeout that is in force\<close>

lemma checked_pairs_append:
  "checked_pairs t (evs @ [Checked e, Evaluated h]) \<longleftrightarrow> checked_pairs t evs \<and> e \<le> t"
  by (induction t evs rule: checked_pairs.induct) auto

lemma checked_pairs_well_timed: "checked_pairs t evs \<Longrightarrow> well_timed t evs"
  by (induction t evs rule: checked_pairs.induct) auto

lemma checked_pairs_exceeded: "checked_pairs t evs \<Longrightarrow> t < e \<Longrightarrow> well_timed t (evs @ [Checked e])"
  by (induction t evs rule: checked_pairs.induct) auto

lemma checked_pairs_within: "checked_pairs t evs \<Longrightarrow> Checked e \<in> set evs \<Longrightarrow> e \<le> t"
  by (induction t evs rule: checked_pairs.induct) auto

lemma evaluated_of_append: "evaluated_of (xs @ ys) = evaluated_of xs @ evaluated_of ys"
  by (induction xs rule: evaluated_of.induct) auto

lemma timed_out_nonzero:
  "t \<noteq> 0 \<Longrightarrow> timed_out (Some t) clock start st =
     (t < clock (ticks st) - start,
      st\<lparr>ticks := Suc (ticks st), trace := trace st @ [Checked (clock (ticks st) - start)]\<rparr>)"
  by (simp add: timed_out_def time_time_def)

lemma try_hypotheses_timed:
  assumes "t \<noteq> 0"
  shows "checked_pairs t (trace st)
    \<Longrightarrow> try_hypotheses ex tid dsl constants (Some t) clock start d hs st = (res, st')
    \<Longrightarrow> (res = Some None \<and> (\<exists>evs e. trace st' = evs @ [Checked e] \<and> checked_pairs t evs \<and> t < e))
         \<or> (res \<noteq> Some None \<and> checked_pairs t (trace st'))"
proof (induction hs arbitrary: st)
  case Nil
  then show ?case by auto
next
  case (Cons h hs)
  let ?e = "clock (ticks st) - start"
  let ?st1 = "st\<lparr>ticks := Suc (ticks st), trace := trace st @ [Checked ?e]\<rparr>"
  let ?st2 = "?st1\<lparr>total_tried := total_tried ?st1 + 1, trace := trace ?st1 @ [Evaluated h]\<rparr>"
  show ?case
  proof (cases "t < ?e")
    case True
    with Cons.prems(2) assms have "res = Some None" "st' = ?st1"
      by (simp_all add: timed_out_nonzero)
    with True Cons.prems(1) show ?thesis by auto
  next
    case False
    then have p2: "checked_pairs t (trace ?st2)"
      using Cons.prems(1) by (simp add: checked_pairs_append)
    show ?thesis
    proof (cases "evaluate_hypothesis h ex dsl constants")
      case True
      with Cons.prems(2) assms False have "res \<noteq> Some None" "trace st' = trace ?st2"
        by (auto simp: timed_out_nonzero Let_def time_time_def)
      with p2 show ?thesis by simp
    next
      case False
      with Cons.prems(2) assms \<open>\<not> t < ?e\<close> have
        "try_hypotheses ex tid dsl constants (Some t) clock start d hs ?st2 = (res, st')"
        by (simp add: timed_out_nonzero Let_def)
      from Cons.IH[OF p2 this] show ?thesis .
    qed
  qed
qed

lemma search_depths_timed:
  assumes "t \<noteq> 0"
  shows "checked_pairs t (trace st)
    \<Longrightarrow> search_depths fuel ex tid dsl constants prims md (Some t) clock start d st = (res, st')
    \<Longrightarrow> (res = Some (Inr None)
           \<and> (\<exists>evs e. trace st' = evs @ [Checked e] \<and> checked_pairs t evs \<and> t < e))
         \<or> checked_pairs t (trace st')"
proof (induction fuel arbitrary: d st)
  case 0
  then show ?case by simp
next
  case (Suc fuel)
  show ?case
  proof (cases "case md of None \<Rightarrow> True | Some m \<Rightarrow> int d \<le> m")
    case False
    with Suc.prems show ?thesis by auto
  next
    case True
    note md = this
    show ?thesis
    proof (cases "generate_at_depth d prims")
      case (Inl e)
      with Suc.prems md show ?thesis by auto
    next
      case (Inr hs)
      obtain r st1 where
        tr: "try_hypotheses ex tid dsl constants (Some t) clock start d hs st = (r, st1)"
        by (cases "try_hypotheses ex tid dsl constants (Some t) clock start d hs st")
      note inv = try_hypotheses_timed[OF assms Suc.prems(1) tr]
      show ?thesis
      proof (cases r)
        case None
        with inv have p1: "checked_pairs t (trace st1)" by auto
        from None Suc.prems(2) md Inr tr have
          "search_depths fuel ex tid dsl constants prims md (Some t) clock start (d + 1) st1
             = (res, st')"
          by simp
        from Suc.IH[OF p1 this] show ?thesis .
      next
        case (Some a)
        with Suc.prems(2) md Inr tr have "st' = st1" "res = Some (Inr a)" by simp_all
        with inv Some show ?thesis by auto
      qed
    qed
  qed
qed

lemma try_hypotheses_cut_short:
  assumes "t \<noteq> 0"
  shows "\<forall>p \<in> set pre. \<not> evaluate_hypothesis p ex dsl constants
    \<Longrightarrow> \<forall>i < length pre. clock (ticks st + i) - start \<le> t
    \<Longrightarrow> t < clock (ticks st + length pre) - start
    \<Longrightarrow> try_hypotheses ex tid dsl constants (Some t) clock start d (pre @ h # post) st = (res, st')
    \<Longrightarrow> res = Some None \<and> evaluated_of (trace st') = evaluated_of (trace st) @ pre"
proof (induction pre arbitrary: st)
  case Nil
  with assms show ?case
    by (auto simp: timed_out_nonzero evaluated_of_append)
next
  case (Cons p pre)
  let ?e = "clock (ticks st) - start"
  let ?st1 = "st\<lparr>ticks := Suc (ticks st), trace := trace st @ [Checked ?e]\<rparr>"
  let ?st2 = "?st1\<lparr>total_tried := total_tried ?st1 + 1, trace := trace ?st1 @ [Evaluated p]\<rparr>"
  from Cons.prems(2) have e: "\<not> t < ?e" by force
  from Cons.prems(1) have np: "\<not> evaluate_hypothesis p ex dsl constants" by simp
  from Cons.prems(4) e np assms have
    run: "try_hypotheses ex tid dsl constants (Some t) clock start d (pre @ h # post) ?st2 = (res, st')"
    by (simp add: timed_out_nonzero Let_def)
  have a: "\<forall>p \<in> set pre. \<not> evaluate_hypothesis p ex dsl constants"
    using Cons.prems(1) by simp
  have b: "\<forall>i < length pre. clock (ticks ?st2 + i) - start \<le> t"
    using Cons.prems(2) by force
  have c: "t < clock (ticks ?st2 + length pre) - start"
    using Cons.prems(3) by simp
  from Cons.IH[OF a b c run] show ?case
    by (simp add: evaluated_of_append)
qed

lemma test_search_short:
  "search (Suc 0) test_examples ''t'' test_dsl test_constants (Some 1) (Some 1) real
     = (Some (Inr None),
        \<lparr>ticks = 3, total_tried = 1,
          trace = [Checked 1, Evaluated hmirror_I, Checked 2]\<rparr>)"
  by (simp add: search_def test_extract Let_def time_time_def
        timed_out_def test_depth_1_Suc test_evaluate_h test_evaluate_v)

text \<open>
  C3, as amended: when a nonzero timeout t is given, every evaluation of a hypothesis
  comes right after a check that found the elapsed time at most t, and a check that finds
  more than t is the last thing the run does: search returns None without evaluating the
  hypothesis at hand. So when the check before some depth-1 hypothesis finds more than t,
  search returns None having evaluated only the hypotheses before it, whether or not
  that hypothesis or a later one of the same depth passes. (A timeout of 0 is never
  checked, see C9.)
\<close>

theorem timeout_checked_before_each_hypothesis:
  assumes "t \<noteq> 0"
  shows "well_timed t (trace (snd (search fuel task_examples task_id dsl constants max_depth (Some t) clock)))
    \<and> ((\<exists>e. t < e \<and> Checked e \<in> set (trace (snd
            (search fuel task_examples task_id dsl constants max_depth (Some t) clock))))
        \<longrightarrow> fst (search fuel task_examples task_id dsl constants max_depth (Some t) clock)
              = Some (Inr None))
    \<and> (generate_at_depth 1 (extract_primitives dsl) = Inr (pre @ h # post)
        \<and> (\<forall>p \<in> set pre. \<not> evaluate_hypothesis p task_examples dsl constants)
        \<and> (\<forall>i < length pre. clock (1 + i) - clock 0 \<le> t)
        \<and> t < clock (1 + length pre) - clock 0
        \<and> 0 < fuel \<and> (case max_depth of None \<Rightarrow> True | Some m \<Rightarrow> 1 \<le> m)
        \<longrightarrow> fst (search fuel task_examples task_id dsl constants max_depth (Some t) clock)
              = Some (Inr None)
            \<and> evaluated_of (trace (snd
                 (search fuel task_examples task_id dsl constants max_depth (Some t) clock))) = pre)"
proof -
  let ?st0 = "\<lparr>ticks = Suc 0, total_tried = 0, trace = []\<rparr>"
  let ?run = "search_depths fuel task_examples task_id dsl constants (extract_primitives dsl)
                max_depth (Some t) clock (clock 0) 1 ?st0"
  have s: "search fuel task_examples task_id dsl constants max_depth (Some t) clock = ?run"
    by (simp add: search_def time_time_def)
  obtain res st' where run: "?run = (res, st')" by (cases ?run)
  have "checked_pairs t (trace ?st0)" by simp
  from search_depths_timed[OF assms this run]
  have inv: "(res = Some (Inr None)
           \<and> (\<exists>evs e. trace st' = evs @ [Checked e] \<and> checked_pairs t evs \<and> t < e))
         \<or> checked_pairs t (trace st')" .
  have 1: "well_timed t (trace st')"
    using inv by (auto intro: checked_pairs_well_timed checked_pairs_exceeded)
  have 2: "(\<exists>e. t < e \<and> Checked e \<in> set (trace st')) \<longrightarrow> res = Some (Inr None)"
    using inv by (auto dest: checked_pairs_within)
  have 3: "res = Some (Inr None) \<and> evaluated_of (trace st') = pre"
    if g: "generate_at_depth 1 (extract_primitives dsl) = Inr (pre @ h # post)"
      and f: "\<forall>p \<in> set pre. \<not> evaluate_hypothesis p task_examples dsl constants"
      and w: "\<forall>i < length pre. clock (1 + i) - clock 0 \<le> t"
      and x: "t < clock (1 + length pre) - clock 0"
      and fuel: "0 < fuel" and md: "case max_depth of None \<Rightarrow> True | Some m \<Rightarrow> 1 \<le> m"
  proof -
    from fuel obtain k where k: "fuel = Suc k" by (cases fuel) auto
    obtain r st1 where tr: "try_hypotheses task_examples task_id dsl constants (Some t) clock
        (clock 0) 1 (pre @ h # post) ?st0 = (r, st1)"
      by (cases "try_hypotheses task_examples task_id dsl constants (Some t) clock
        (clock 0) 1 (pre @ h # post) ?st0")
    have w': "\<forall>i < length pre. clock (ticks ?st0 + i) - clock 0 \<le> t" using w by simp
    have x': "t < clock (ticks ?st0 + length pre) - clock 0" using x by simp
    from try_hypotheses_cut_short[OF assms f w' x' tr]
    have "r = Some None" "evaluated_of (trace st1) = pre" by simp_all
    moreover from md have "case max_depth of None \<Rightarrow> True | Some m \<Rightarrow> int 1 \<le> m"
      by (cases max_depth) auto
    ultimately show ?thesis
      using run k g tr by (simp del: One_nat_def)
  qed
  from 1 2 3 show ?thesis
    unfolding s run by simp
qed

theorem timeout_checked_before_each_hypothesis_witness:
  "(1::real) \<noteq> 0
   \<and> generate_at_depth 1 (extract_primitives test_dsl) = Inr ([hmirror_I] @ vmirror_I # [])
   \<and> \<not> evaluate_hypothesis hmirror_I test_examples test_dsl test_constants
   \<and> evaluate_hypothesis vmirror_I test_examples test_dsl test_constants
   \<and> real (1 + 0) - real 0 \<le> 1 \<and> 1 < real (1 + length [hmirror_I]) - real 0
   \<and> fst (search (Suc 0) test_examples ''t'' test_dsl test_constants (Some 1) (Some 1) real)
       = Some (Inr None)
   \<and> evaluated_of (trace (snd
        (search (Suc 0) test_examples ''t'' test_dsl test_constants (Some 1) (Some 1) real)))
       = [hmirror_I]
   \<and> well_timed 1 (trace (snd
        (search (Suc 0) test_examples ''t'' test_dsl test_constants (Some 1) (Some 1) real)))"
  using timeout_checked_before_each_hypothesis [of 1 "Suc 0" test_examples "''t''" test_dsl test_constants "Some 1" real
          "[hmirror_I]" vmirror_I "[]"]
  by (simp add: test_extract test_depth_1_Suc test_evaluate_h test_evaluate_v)

text \<open>
  The claim as stated fails for the timeout 0: no check is made, both hypotheses are
  evaluated and a result is returned, although the elapsed time is above the timeout.
\<close>

theorem zero_timeout_is_not_checked:
  "fst (search (Suc 0) test_examples ''t'' test_dsl test_constants (Some 1) (Some 0) real)
     = Some (Inr (Some \<lparr>hypothesis = vmirror_I, code = hypothesis_to_code vmirror_I ''t'',
                           depth = 1, hypotheses_tried = 2, time_elapsed = 1\<rparr>))
   \<and> trace (snd (search (Suc 0) test_examples ''t'' test_dsl test_constants (Some 1) (Some 0) real))
     = [Evaluated hmirror_I, Evaluated vmirror_I]
   \<and> (0::real) < real 1 - real 0"
  by (simp add: test_search_zero)

subsection \<open>No examples\<close>

lemma try_hypotheses_no_examples:
  assumes "\<not> fst (timed_out tmo clock start st)"
  shows "\<exists>r st'. try_hypotheses [] tid dsl constants tmo clock start d (h # hs) st
            = (Some (Some r), st')
          \<and> hypothesis r = h \<and> depth r = d \<and> hypotheses_tried r = total_tried st + 1"
proof -
  obtain expired st1 where t: "timed_out tmo clock start st = (expired, st1)"
    by (cases "timed_out tmo clock start st")
  with assms have e: "\<not> expired" by simp
  from t have "total_tried st1 = total_tried st"
    by (auto simp: timed_out_def time_time_def Let_def split: option.splits if_splits)
  with t e show ?thesis
    by (simp add: Let_def time_time_def)
qed

lemma search_depths_no_examples:
  assumes "generate_at_depth d prims = Inr (h # hs)"
    and "case md of None \<Rightarrow> True | Some m \<Rightarrow> int d \<le> m"
    and "\<not> fst (timed_out tmo clock start st)"
  shows "\<forall>d'. d0 \<le> d' \<and> d' < d \<longrightarrow> generate_at_depth d' prims = Inr []
    \<Longrightarrow> d0 \<le> d \<Longrightarrow> d - d0 < fuel
    \<Longrightarrow> \<exists>r st'. search_depths fuel [] tid dsl constants prims md tmo clock start d0 st
            = (Some (Inr (Some r)), st')
          \<and> hypothesis r = h \<and> depth r = d \<and> hypotheses_tried r = total_tried st + 1"
proof (induction fuel arbitrary: d0)
  case 0
  then show ?case by simp
next
  case (Suc fuel)
  from assms(2) Suc.prems(2) have md: "case md of None \<Rightarrow> True | Some m \<Rightarrow> int d0 \<le> m"
    by (cases md) auto
  show ?case
  proof (cases "d0 = d")
    case True
    from try_hypotheses_no_examples[OF assms(3), of tid dsl constants d h hs]
    obtain r st' where "try_hypotheses [] tid dsl constants tmo clock start d (h # hs) st
            = (Some (Some r), st')"
      "hypothesis r = h" "depth r = d" "hypotheses_tried r = total_tried st + 1" by blast
    with True assms(1,2) show ?thesis by simp
  next
    case False
    with Suc.prems have lt: "d0 < d" by simp
    with Suc.prems(1) have g0: "generate_at_depth d0 prims = Inr []" by simp
    have a: "\<forall>d'. d0 + 1 \<le> d' \<and> d' < d \<longrightarrow> generate_at_depth d' prims = Inr []"
      using Suc.prems(1) by simp
    have b: "d0 + 1 \<le> d" using lt by simp
    have c: "d - (d0 + 1) < fuel" using Suc.prems(3) lt by simp
    from Suc.IH[OF a b c] md g0 show ?thesis by simp
  qed
qed

text \<open>
  C10, as amended: on an empty example list evaluate_hypothesis returns True for every
  hypothesis. So a search with no examples returns the first hypothesis of the
  shallowest depth that generates any, after one attempt, provided max_depth admits
  that depth and the timeout check made before that hypothesis does not fire; when a
  nonzero timeout has run out at that check (here at depth 1), search returns None.
\<close>

theorem search_without_examples:
  "evaluate_hypothesis h [] dsl constants
   \<and> ((\<forall>d'. 1 \<le> d' \<and> d' < d \<longrightarrow> generate_at_depth d' (extract_primitives dsl) = Inr [])
       \<and> generate_at_depth d (extract_primitives dsl) = Inr (first # others)
       \<and> (case max_depth of None \<Rightarrow> True | Some m \<Rightarrow> int d \<le> m)
       \<and> d \<le> fuel
       \<and> (case timeout of None \<Rightarrow> True | Some t \<Rightarrow> t = 0 \<or> clock 1 - clock 0 \<le> t)
       \<longrightarrow> (\<exists>r. fst (search fuel [] task_id dsl constants max_depth timeout clock)
                   = Some (Inr (Some r))
                \<and> hypothesis r = first \<and> depth r = d \<and> hypotheses_tried r = 1))
   \<and> (generate_at_depth 1 (extract_primitives dsl) = Inr (first # others)
       \<and> (case max_depth of None \<Rightarrow> True | Some m \<Rightarrow> 1 \<le> m)
       \<and> 0 < fuel
       \<and> timeout = Some t \<and> t \<noteq> 0 \<and> t < clock 1 - clock 0
       \<longrightarrow> fst (search fuel [] task_id dsl constants max_depth timeout clock) = Some (Inr None))"
proof (intro conjI impI)
  show "evaluate_hypothesis h [] dsl constants" by simp
next
  let ?st0 = "\<lparr>ticks = Suc 0, total_tried = 0, trace = []\<rparr>"
  assume a: "(\<forall>d'. 1 \<le> d' \<and> d' < d \<longrightarrow> generate_at_depth d' (extract_primitives dsl) = Inr [])
       \<and> generate_at_depth d (extract_primitives dsl) = Inr (first # others)
       \<and> (case max_depth of None \<Rightarrow> True | Some m \<Rightarrow> int d \<le> m)
       \<and> d \<le> fuel
       \<and> (case timeout of None \<Rightarrow> True | Some t \<Rightarrow> t = 0 \<or> clock 1 - clock 0 \<le> t)"
  then have g: "generate_at_depth d (extract_primitives dsl) = Inr (first # others)" by simp
  then have d1: "1 \<le> d" by (cases "d = 0") (auto simp: generate_at_depth_0)
  from a have t: "\<not> fst (timed_out timeout clock (clock 0) ?st0)"
    by (auto simp: timed_out_def time_time_def split: option.splits)
  from a have md: "case max_depth of None \<Rightarrow> True | Some m \<Rightarrow> int d \<le> m" by simp
  from a have sh: "\<forall>d'. 1 \<le> d' \<and> d' < d \<longrightarrow> generate_at_depth d' (extract_primitives dsl) = Inr []"
    by simp
  from a d1 have f: "d - 1 < fuel" by auto
  from search_depths_no_examples[OF g md t sh d1 f, of task_id dsl constants]
  show "\<exists>r. fst (search fuel [] task_id dsl constants max_depth timeout clock)
                   = Some (Inr (Some r))
                \<and> hypothesis r = first \<and> depth r = d \<and> hypotheses_tried r = 1"
    by (auto simp: search_def time_time_def)
next
  assume a: "generate_at_depth 1 (extract_primitives dsl) = Inr (first # others)
       \<and> (case max_depth of None \<Rightarrow> True | Some m \<Rightarrow> 1 \<le> m)
       \<and> 0 < fuel
       \<and> timeout = Some t \<and> t \<noteq> 0 \<and> t < clock 1 - clock 0"
  then obtain k where k: "fuel = Suc k" by (cases fuel) auto
  from a have md: "case max_depth of None \<Rightarrow> True | Some m \<Rightarrow> int (Suc 0) \<le> m"
    by (cases max_depth) auto
  from a have g: "generate_at_depth (Suc 0) (extract_primitives dsl) = Inr (first # others)" by simp
  from a k md g show "fst (search fuel [] task_id dsl constants max_depth timeout clock) = Some (Inr None)"
    by (simp add: search_def time_time_def timed_out_nonzero)
qed

theorem search_without_examples_witness:
  "evaluate_hypothesis hmirror_I [] test_dsl test_constants
   \<and> generate_at_depth 1 (extract_primitives test_dsl) = Inr (hmirror_I # [vmirror_I])
   \<and> int 1 \<le> 1 \<and> 1 \<le> Suc 0 \<and> real 1 - real 0 \<le> 10
   \<and> (\<exists>r. fst (search (Suc 0) [] ''t'' test_dsl test_constants (Some 1) (Some 10) real)
              = Some (Inr (Some r))
           \<and> hypothesis r = hmirror_I \<and> depth r = 1 \<and> hypotheses_tried r = 1)"
  using search_without_examples [where h = hmirror_I and dsl = test_dsl and constants = test_constants and d = 1
          and first = hmirror_I and others = "[vmirror_I]" and max_depth = "Some 1"
          and fuel = "Suc 0" and timeout = "Some 10" and clock = real and task_id = "''t''"]
  by (simp add: test_extract test_depth_1_Suc)

text \<open>
  The claim as stated fails when the time is up at the first check: the generator
  produces hypotheses, the example list is empty, and search returns None.
\<close>

theorem search_without_examples_timed_out:
  "generate_at_depth 1 (extract_primitives test_dsl) = Inr [hmirror_I, vmirror_I]
   \<and> fst (search (Suc 0) [] ''t'' test_dsl test_constants (Some 1) (Some 1) (\<lambda>n. 2 * real n))
       = Some (Inr None)"
  by (simp add: search_def test_extract Let_def time_time_def
        timed_out_def test_depth_1_Suc)

end
